theory Spec2Isabelle
  imports Main "HOL-Library.Sublist" "HOL-Library.AList"
begin

section \<open>Example and category registries\<close>

text \<open>
  The generator scripts of the repository (create-fhevm-example.ts,
  create-fhevm-category.ts, generate-docs.ts) are embedded as HOL functions.
  A JavaScript string is a \<^typ>\<open>string\<close>; each character stands for one code unit below 256.
\<close>

datatype difficulty = Beginner | Intermediate | Advanced

fun difficulty_str :: "difficulty \<Rightarrow> string" where
  "difficulty_str Beginner = ''beginner''"
| "difficulty_str Intermediate = ''intermediate''"
| "difficulty_str Advanced = ''advanced''"

record ExampleConfig =
  name :: string
  title :: string
  description :: string
  concept :: string
  learningObjectives :: "string list"
  fhevmFeatures :: "string list"
  "chapter" :: string
  difficulty :: difficulty
  contractFile :: string
  testFile :: string
  useCaseDescription :: string

text \<open>The \<open>EXAMPLES\<close> object literal, in its declared key order.\<close>

definition ex_access_control :: ExampleConfig where
  "ex_access_control = \<lparr>
     name = ''access-control'',
     title = ''Access Control for Encrypted Data'',
     description = ''Learn how to manage permissions for encrypted data using FHE.allow and FHE.allowThis'',
     concept = ''Access Control Lists (ACL) in FHEVM determine who can access encrypted data. This example shows how to grant and manage permissions for encrypted loan amounts in a lending platform.'',
     learningObjectives =
      [''Understand FHE.allow() for granting user permissions'',
       ''Use FHE.allowThis() for contract self-permissions'',
       ''Implement role-based access patterns'',
       ''Manage encrypted data visibility''],
     fhevmFeatures =
      [''FHE.allow() - Grant permission to specific address'',
       ''FHE.allowThis() - Grant permission to contract itself'',
       ''FHE.allowTransient() - Temporary permissions'',
       ''euint32 handles - Encrypted 32-bit integers''],
     chapter = ''access-control'',
     difficulty = Beginner,
     contractFile = ''LendingAccessControl.sol'',
     testFile = ''AccessControl.test.ts'',
     useCaseDescription = ''In a privacy-preserving lending platform, borrowers need to view their own loan amounts while keeping them hidden from others. Access control ensures only authorized parties can decrypt sensitive financial data.''\<rparr>"

definition ex_encrypted_arithmetic :: ExampleConfig where
  "ex_encrypted_arithmetic = \<lparr>
     name = ''encrypted-arithmetic'',
     title = ''Arithmetic Operations on Encrypted Data'',
     description = ''Perform calculations on encrypted values without revealing the underlying data'',
     concept = ''Fully Homomorphic Encryption allows mathematical operations on encrypted data. This example demonstrates how to calculate interest and total repayment amounts on encrypted loan values.'',
     learningObjectives =
      [''Perform FHE.add() for encrypted addition'',
       ''Use FHE.mul() for encrypted multiplication'',
       ''Apply FHE.sub() for encrypted subtraction'',
       ''Handle encrypted arithmetic in real scenarios''],
     fhevmFeatures =
      [''FHE.add() - Encrypted addition'',
       ''FHE.sub() - Encrypted subtraction'',
       ''FHE.mul() - Encrypted multiplication'',
       ''euint32 - Handle encrypted integers'',
       ''Scalar multiplication with plaintext values''],
     chapter = ''arithmetic'',
     difficulty = Beginner,
     contractFile = ''LendingArithmetic.sol'',
     testFile = ''Arithmetic.test.ts'',
     useCaseDescription = ''Calculate loan interest and total repayment amounts on encrypted principal values, ensuring borrowers privacy while maintaining accurate financial calculations.''\<rparr>"

definition ex_encrypted_comparison :: ExampleConfig where
  "ex_encrypted_comparison = \<lparr>
     name = ''encrypted-comparison'',
     title = ''Comparison Operations on Encrypted Data'',
     description = ''Compare encrypted values and make decisions based on encrypted conditions'',
     concept = ''FHEVM supports comparison operations that return encrypted boolean results. This example shows how to check if a loan is fully repaid without revealing the actual balance.'',
     learningObjectives =
      [''Use FHE.eq() for encrypted equality checks'',
       ''Work with ebool encrypted boolean type'',
       ''Implement conditional logic on encrypted data'',
       ''Handle encrypted comparison results''],
     fhevmFeatures =
      [''FHE.eq() - Encrypted equality comparison'',
       ''ebool - Encrypted boolean type'',
       ''FHE.lt() / FHE.gt() - Less than / Greater than'',
       ''Encrypted conditional branching''],
     chapter = ''comparison'',
     difficulty = Intermediate,
     contractFile = ''LendingComparison.sol'',
     testFile = ''Comparison.test.ts'',
     useCaseDescription = ''Verify loan repayment status by checking if the encrypted remaining balance equals zero, without exposing the actual balance amount to unauthorized parties.''\<rparr>"

definition ex_user_decryption :: ExampleConfig where
  "ex_user_decryption = \<lparr>
     name = ''user-decryption'',
     title = ''User-Specific Decryption Patterns'',
     description = ''Enable authorized users to decrypt their own encrypted data'',
     concept = ''User decryption allows specific addresses to decrypt encrypted values they are authorized to access. This example demonstrates how borrowers and lenders can decrypt loan details specific to them.'',
     learningObjectives =
      [''Implement user-specific decryption'',
       ''Use access control for decryption authorization'',
       ''Handle decryption requests securely'',
       ''Manage multiple authorized decryptors''],
     fhevmFeatures =
      [''User decryption with authorization checks'',
       ''ACL-based decryption permissions'',
       ''Multiple decryptor support'',
       ''Secure key management''],
     chapter = ''decryption'',
     difficulty = Intermediate,
     contractFile = ''LendingUserDecryption.sol'',
     testFile = ''UserDecryption.test.ts'',
     useCaseDescription = ''Allow borrowers to decrypt their loan amounts and lenders to decrypt details of loans they funded, while maintaining privacy from unauthorized users.''\<rparr>"

definition ex_credit_scoring :: ExampleConfig where
  "ex_credit_scoring = \<lparr>
     name = ''credit-scoring'',
     title = ''Privacy-Preserving Credit Scoring'',
     description = ''Manage encrypted credit scores using euint8 for smaller encrypted values'',
     concept = ''Encrypted credit scores protect user financial privacy while enabling risk assessment. This example uses euint8 for efficient storage of 0-100 credit score values.'',
     learningObjectives =
      [''Use euint8 for small encrypted integers'',
       ''Implement credit score updates'',
       ''Handle encrypted score comparisons'',
       ''Manage privacy-preserving risk assessment''],
     fhevmFeatures =
      [''euint8 - 8-bit encrypted integers'',
       ''Efficient encrypted small values'',
       ''Update encrypted scores'',
       ''Range-bound encrypted data (0-100)''],
     chapter = ''advanced-patterns'',
     difficulty = Intermediate,
     contractFile = ''LendingCreditScore.sol'',
     testFile = ''CreditScore.test.ts'',
     useCaseDescription = ''Store and update encrypted credit scores for privacy-preserving loan risk assessment, ensuring users financial history remains confidential.''\<rparr>"

definition ex_input_proofs :: ExampleConfig where
  "ex_input_proofs = \<lparr>
     name = ''input-proofs'',
     title = ''Input Proof Validation'',
     description = ''Handle encrypted inputs securely with proper validation'',
     concept = ''Input proofs ensure encrypted values submitted by users are valid and cannot be manipulated. This example shows proper patterns for accepting encrypted loan amounts.'',
     learningObjectives =
      [''Understand input proof requirements'',
       ''Validate encrypted user inputs'',
       ''Handle proof verification'',
       ''Avoid common input handling mistakes''],
     fhevmFeatures =
      [''Input proof validation'',
       ''Secure encrypted input handling'',
       ''FHE.asEuint32() for input conversion'',
       ''Proof verification patterns''],
     chapter = ''security'',
     difficulty = Advanced,
     contractFile = ''LendingInputProofs.sol'',
     testFile = ''InputProofs.test.ts'',
     useCaseDescription = ''Accept encrypted loan amount requests from users with proper validation, preventing manipulation and ensuring data integrity.''\<rparr>"

definition EXAMPLES :: "(string \<times> ExampleConfig) list" where
  "EXAMPLES = [
     (''access-control'', ex_access_control),
     (''encrypted-arithmetic'', ex_encrypted_arithmetic),
     (''encrypted-comparison'', ex_encrypted_comparison),
     (''user-decryption'', ex_user_decryption),
     (''credit-scoring'', ex_credit_scoring),
     (''input-proofs'', ex_input_proofs)]"

text \<open>
  \<open>CategoryConfig\<close> of create-fhevm-category.ts. Its fields \<open>name\<close>, \<open>title\<close>,
  \<open>description\<close> and \<open>difficulty\<close> carry the prefix \<open>c\<close> here, since the unprefixed
  names are the fields of \<^typ>\<open>ExampleConfig\<close>.
\<close>

record CategoryConfig =
  cname :: string
  ctitle :: string
  cdescription :: string
  examples :: "string list"
  cdifficulty :: string
  overview :: string

definition nl :: string where
  "nl = [CHR 0x0A]"

definition cat_basics :: CategoryConfig where
  "cat_basics = \<lparr>
     cname = ''basics'',
     ctitle = ''FHEVM Basics'',
     cdescription = ''Foundational concepts for working with encrypted data'',
     examples = [''access-control'', ''encrypted-arithmetic'', ''encrypted-comparison''],
     cdifficulty = ''Beginner'',
     overview =
       ''This category covers the fundamental concepts of FHEVM development:'' @ nl @
       [] @ nl @
       ''- **Access Control**: Learn how to manage permissions for encrypted data'' @ nl @
       ''- **Encrypted Arithmetic**: Perform calculations on encrypted values'' @ nl @
       ''- **Encrypted Comparison**: Compare encrypted data and make decisions'' @ nl @
       [] @ nl @
       ''These examples provide the building blocks for privacy-preserving smart contracts.''\<rparr>"

definition cat_decryption :: CategoryConfig where
  "cat_decryption = \<lparr>
     cname = ''decryption'',
     ctitle = ''Decryption Patterns'',
     cdescription = ''Techniques for securely decrypting encrypted data'',
     examples = [''user-decryption''],
     cdifficulty = ''Intermediate'',
     overview =
       ''Master the art of decrypting encrypted data securely:'' @ nl @
       [] @ nl @
       ''- **User Decryption**: Allow authorized users to decrypt their own data'' @ nl @
       ''- **Multi-Party Decryption**: Coordinate decryption among multiple parties'' @ nl @
       ''- **Threshold Decryption**: Require multiple keys to decrypt'' @ nl @
       [] @ nl @
       ''Learn when and how to reveal encrypted information safely.''\<rparr>"

definition cat_advanced :: CategoryConfig where
  "cat_advanced = \<lparr>
     cname = ''advanced'',
     ctitle = ''Advanced FHEVM Patterns'',
     cdescription = ''Complex patterns and real-world applications'',
     examples = [''credit-scoring'', ''input-proofs''],
     cdifficulty = ''Advanced'',
     overview =
       ''Explore sophisticated FHEVM patterns for production systems:'' @ nl @
       [] @ nl @
       ''- **Credit Scoring**: Privacy-preserving risk assessment'' @ nl @
       ''- **Input Proofs**: Secure validation of encrypted inputs'' @ nl @
       ''- **Complex Calculations**: Multi-step encrypted operations'' @ nl @
       [] @ nl @
       ''These examples demonstrate production-ready patterns from real applications.''\<rparr>"

definition cat_lending :: CategoryConfig where
  "cat_lending = \<lparr>
     cname = ''lending'',
     ctitle = ''Privacy-Preserving Lending'',
     cdescription = ''Complete lending platform examples with FHEVM'',
     examples = [''access-control'', ''encrypted-arithmetic'', ''user-decryption'', ''credit-scoring''],
     cdifficulty = ''Mixed'',
     overview =
       ''Build a complete privacy-preserving lending platform:'' @ nl @
       [] @ nl @
       ''This category combines multiple FHEVM concepts to create a real-world application'' @ nl @
       ''where borrowers and lenders can transact without revealing sensitive financial information.'' @ nl @
       [] @ nl @
       ''Learn how to:'' @ nl @
       ''- Accept encrypted loan requests'' @ nl @
       ''- Calculate interest on encrypted amounts'' @ nl @
       ''- Manage permissions for borrowers and lenders'' @ nl @
       ''- Implement private credit scoring'' @ nl @
       ''- Track encrypted loan balances''\<rparr>"

definition CATEGORIES :: "(string \<times> CategoryConfig) list" where
  "CATEGORIES = [
     (''basics'', cat_basics),
     (''decryption'', cat_decryption),
     (''advanced'', cat_advanced),
     (''lending'', cat_lending)]"

subsection \<open>Property lookup on an object literal\<close>

text \<open>
  \<open>EXAMPLES[exampleName]\<close> and \<open>CATEGORIES[categoryName]\<close> are property reads on plain
  object literals: an own key yields its descriptor, and a key that is not an own property
  is looked up on \<open>Object.prototype\<close>, whose members are truthy. For such a member the
  model keeps what the template literal \<open>`example-${config.name}`\<close> prints: the function's
  \<open>name\<close>, or \<open>undefined\<close> for \<open>__proto__\<close> (the prototype object has no \<open>name\<close>).
\<close>

datatype 'a jsprop = Own 'a | Inherited string | Undefined

definition objectPrototype :: "(string \<times> string) list" where
  "objectPrototype = [
     (''constructor'', ''Object''),
     (''__defineGetter__'', ''__defineGetter__''),
     (''__defineSetter__'', ''__defineSetter__''),
     (''hasOwnProperty'', ''hasOwnProperty''),
     (''__lookupGetter__'', ''__lookupGetter__''),
     (''__lookupSetter__'', ''__lookupSetter__''),
     (''isPrototypeOf'', ''isPrototypeOf''),
     (''propertyIsEnumerable'', ''propertyIsEnumerable''),
     (''toString'', ''toString''),
     (''valueOf'', ''valueOf''),
     (''__proto__'', ''undefined''),
     (''toLocaleString'', ''toLocaleString'')]"

definition getProp :: "(string \<times> 'a) list \<Rightarrow> string \<Rightarrow> 'a jsprop" where
  "getProp obj k =
     (case map_of obj k of
        Some v \<Rightarrow> Own v
      | None \<Rightarrow> (case map_of objectPrototype k of
                   Some n \<Rightarrow> Inherited n
                 | None \<Rightarrow> Undefined))"

fun isOwn :: "'a jsprop \<Rightarrow> bool" where
  "isOwn (Own _) = True"
| "isOwn _ = False"

fun joinWith :: "string \<Rightarrow> string list \<Rightarrow> string" where
  "joinWith sep [] = []"
| "joinWith sep [x] = x"
| "joinWith sep (x # y # ys) = x @ sep @ joinWith sep (y # ys)"

fun splitOn :: "char \<Rightarrow> string \<Rightarrow> string list" where
  "splitOn c [] = [[]]"
| "splitOn c (x # xs) =
     (if x = c then [] # splitOn c xs
      else (case splitOn c xs of
              [] \<Rightarrow> [[x]]
            | y # ys \<Rightarrow> (x # y) # ys))"

definition normStep :: "bool \<Rightarrow> string list \<Rightarrow> string \<Rightarrow> string list" where
  "normStep allowAboveRoot res seg =
     (if seg = [] \<or> seg = ''.'' then res
      else if seg = ''..'' then
        (if res \<noteq> [] \<and> last res \<noteq> ''..'' then butlast res
         else if allowAboveRoot then res @ [''..'']
         else res)
      else res @ [seg])"

definition normalizeSegments :: "bool \<Rightarrow> string list \<Rightarrow> string list" where
  "normalizeSegments allowAboveRoot segs = foldl (normStep allowAboveRoot) [] segs"

definition normalizeString :: "string \<Rightarrow> bool \<Rightarrow> string" where
  "normalizeString path allowAboveRoot =
     joinWith ''/'' (normalizeSegments allowAboveRoot (splitOn CHR ''/'' path))"

definition isAbsolute :: "string \<Rightarrow> bool" where
  "isAbsolute path \<longleftrightarrow> path \<noteq> [] \<and> hd path = CHR ''/''"

definition normalize :: "string \<Rightarrow> string" where
  "normalize path =
     (if path = [] then ''.''
      else
        let trailingSeparator = (last path = CHR ''/'');
            p = normalizeString path (\<not> isAbsolute path)
        in if p = [] then (if isAbsolute path then ''/'' else if trailingSeparator then ''./'' else ''.'')
           else (if isAbsolute path then ''/'' else []) @ p @ (if trailingSeparator then ''/'' else []))"

definition path_join :: "string list \<Rightarrow> string" where
  "path_join args =
     (let joined = joinWith ''/'' (filter (\<lambda>arg. arg \<noteq> []) args)
      in if joined = [] then ''.'' else normalize joined)"

definition fsKey :: "string \<Rightarrow> string \<Rightarrow> string list" where
  "fsKey wd path =
     foldl (normStep False) []
       (splitOn CHR ''/'' (if isAbsolute path then path else wd @ ''/'' @ path))"

definition simpleName :: "string \<Rightarrow> bool" where
  "simpleName n \<longleftrightarrow> n \<noteq> [] \<and> n \<noteq> ''.'' \<and> n \<noteq> ''..'' \<and> CHR ''/'' \<notin> set n"

fun getSubstitution :: "string \<Rightarrow> string \<Rightarrow> string \<Rightarrow> string \<Rightarrow> string" where
  "getSubstitution matched pre post [] = []"
| "getSubstitution matched pre post [c] = [c]"
| "getSubstitution matched pre post (c # d # ds) =
     (if c \<noteq> CHR ''$'' then c # getSubstitution matched pre post (d # ds)
      else if d = CHR ''$'' then CHR ''$'' # getSubstitution matched pre post ds
      else if d = CHR ''&'' then matched @ getSubstitution matched pre post ds
      else if d = CHR 0x60 then pre @ getSubstitution matched pre post ds
      else if d = CHR 0x27 then post @ getSubstitution matched pre post ds
      else c # getSubstitution matched pre post (d # ds))"

function replaceFrom :: "string \<Rightarrow> string \<Rightarrow> string \<Rightarrow> string \<Rightarrow> string" where
  "replaceFrom key val pre rest =
     (if key = [] then
        (case rest of
           [] \<Rightarrow> getSubstitution [] pre [] val
         | c # cs \<Rightarrow> getSubstitution [] pre rest val @ c # replaceFrom key val (pre @ [c]) cs)
      else if rest = [] then []
      else if prefix key rest then
        getSubstitution key pre (drop (length key) rest) val
          @ replaceFrom key val (pre @ key) (drop (length key) rest)
      else hd rest # replaceFrom key val (pre @ [hd rest]) (tl rest))"
  by pat_completeness auto
termination
  by (relation "measure (\<lambda>(key, val, pre, rest). length rest)") auto

declare replaceFrom.simps [simp del]

definition replaceGlobal :: "string \<Rightarrow> string \<Rightarrow> string \<Rightarrow> string" where
  "replaceGlobal key val content = replaceFrom key val [] content"

definition keyChars :: "char set" where
  "keyChars = set ''{}_ABCDEFGHIJKLMNOPQRSTUVWXYZ''"

definition tokenKey :: "string \<Rightarrow> bool" where
  "tokenKey k \<longleftrightarrow> k \<noteq> [] \<and> hd k = CHR ''{'' \<and> last k = CHR ''}'' \<and> set k \<subseteq> keyChars"

definition safeValue :: "string \<Rightarrow> bool" where
  "safeValue v \<longleftrightarrow>
     CHR ''{'' \<notin> set v \<and> CHR ''}'' \<notin> set v \<and> CHR ''$'' \<notin> set v \<and> \<not> set v \<subseteq> keyChars"

definition applyReplacements :: "(string \<times> string) list \<Rightarrow> string \<Rightarrow> string" where
  "applyReplacements reps content = foldl (\<lambda>c (k, v). replaceGlobal k v c) content reps"

datatype node = File string | Dir

type_synonym fs = "(string list \<times> node) list"

datatype error =
    ProcessExit nat
  | ENOENT | ENOTDIR | EISDIR | EEXIST
  | SyntaxError | TypeError
  | OutOfFuel

datatype 'a outcome = Ok 'a fs | Fail error fs

definition bindO :: "'a outcome \<Rightarrow> ('a \<Rightarrow> fs \<Rightarrow> 'b outcome) \<Rightarrow> 'b outcome" where
  "bindO m f = (case m of Fail e s \<Rightarrow> Fail e s | Ok a s \<Rightarrow> f a s)"

fun finalFs :: "'a outcome \<Rightarrow> fs" where
  "finalFs (Ok _ s) = s"
| "finalFs (Fail _ s) = s"

datatype json =
    JNull | JBool bool | JNum int | JStr string
  | JArr "json list" | JObj "(string \<times> json) list"

record env =
  cwd :: string
  dirname :: string
  parseJSON :: "string \<Rightarrow> json option"
  stringifyJSON :: "json \<Rightarrow> string"

definition nodeAt :: "fs \<Rightarrow> string list \<Rightarrow> node option" where
  "nodeAt s k = (if k = [] then Some Dir else map_of s k)"

definition existsSync :: "env \<Rightarrow> string \<Rightarrow> fs \<Rightarrow> bool" where
  "existsSync e p s \<longleftrightarrow> nodeAt s (fsKey (cwd e) p) \<noteq> None"

fun mkdirFrom :: "string list \<Rightarrow> string list \<Rightarrow> fs \<Rightarrow> unit outcome" where
  "mkdirFrom pre [] s = Ok () s"
| "mkdirFrom pre (seg # segs) s =
     (case nodeAt s (pre @ [seg]) of
        Some Dir \<Rightarrow> mkdirFrom (pre @ [seg]) segs s
      | Some (File _) \<Rightarrow> Fail (if segs = [] then EEXIST else ENOTDIR) s
      | None \<Rightarrow> mkdirFrom (pre @ [seg]) segs (AList.update (pre @ [seg]) Dir s))"

definition mkdirSync :: "env \<Rightarrow> string \<Rightarrow> fs \<Rightarrow> unit outcome" where
  "mkdirSync e p s = mkdirFrom [] (fsKey (cwd e) p) s"

definition childNames :: "fs \<Rightarrow> string list \<Rightarrow> string list" where
  "childNames s k = remdups (map (last \<circ> fst) (filter (\<lambda>(q, n). q \<noteq> [] \<and> butlast q = k) s))"

definition readdirSync :: "env \<Rightarrow> string \<Rightarrow> fs \<Rightarrow> (string \<times> bool) list outcome" where
  "readdirSync e p s =
     (let k = fsKey (cwd e) p in
      case nodeAt s k of
        None \<Rightarrow> Fail ENOENT s
      | Some (File _) \<Rightarrow> Fail ENOTDIR s
      | Some Dir \<Rightarrow> Ok (map (\<lambda>n. (n, nodeAt s (k @ [n]) = Some Dir)) (childNames s k)) s)"

definition readFileSync :: "env \<Rightarrow> string \<Rightarrow> fs \<Rightarrow> string outcome" where
  "readFileSync e p s =
     (case nodeAt s (fsKey (cwd e) p) of
        None \<Rightarrow> Fail ENOENT s
      | Some Dir \<Rightarrow> Fail EISDIR s
      | Some (File c) \<Rightarrow> Ok c s)"

definition writeFileSync :: "env \<Rightarrow> string \<Rightarrow> string \<Rightarrow> fs \<Rightarrow> unit outcome" where
  "writeFileSync e p c s =
     (let k = fsKey (cwd e) p in
      if k = [] then Fail EISDIR s
      else case nodeAt s (butlast k) of
        None \<Rightarrow> Fail ENOENT s
      | Some (File _) \<Rightarrow> Fail ENOTDIR s
      | Some Dir \<Rightarrow>
          (case nodeAt s k of
             Some Dir \<Rightarrow> Fail EISDIR s
           | _ \<Rightarrow> Ok () (AList.update k (File c) s)))"

definition copyFileSync :: "env \<Rightarrow> string \<Rightarrow> string \<Rightarrow> fs \<Rightarrow> unit outcome" where
  "copyFileSync e src dest s =
     bindO (readFileSync e src s) (\<lambda>c. writeFileSync e dest c)"

fun copyDirectory :: "env \<Rightarrow> nat \<Rightarrow> string \<Rightarrow> string \<Rightarrow> fs \<Rightarrow> unit outcome"
  and copyEntries :: "env \<Rightarrow> nat \<Rightarrow> string \<Rightarrow> string \<Rightarrow> (string \<times> bool) list \<Rightarrow> fs \<Rightarrow> unit outcome"
where
  "copyDirectory e 0 src dest s = Fail OutOfFuel s"
| "copyDirectory e (Suc fuel) src dest s =
     bindO (if \<not> existsSync e dest s then mkdirSync e dest s else Ok () s) (\<lambda>_ s1.
     bindO (readdirSync e src s1) (\<lambda>entries s2.
       copyEntries e fuel src dest entries s2))"
| "copyEntries e fuel src dest [] s = Ok () s"
| "copyEntries e fuel src dest ((nm, isDirectory) # entries) s =
     bindO (let srcPath = path_join [src, nm]; destPath = path_join [dest, nm] in
            if isDirectory then copyDirectory e fuel srcPath destPath s
            else copyFileSync e srcPath destPath s) (\<lambda>_ s1.
       copyEntries e fuel src dest entries s1)"

subsection \<open>Rendering the README of one example\<close>

definition toLowerChar :: "char \<Rightarrow> char" where
  "toLowerChar c =
     (let n = (of_char c :: nat) in
      if (65 \<le> n \<and> n \<le> 90) \<or> (192 \<le> n \<and> n \<le> 222 \<and> n \<noteq> 215) then char_of (n + 32) else c)"

definition toLowerCase :: "string \<Rightarrow> string" where
  "toLowerCase s = map toLowerChar s"

definition toUpperChar :: "char \<Rightarrow> char" where
  "toUpperChar c =
     (let n = (of_char c :: nat) in
      if 97 \<le> n \<and> n \<le> 122 then char_of (n - 32) else c)"

definition capitalize :: "string \<Rightarrow> string" where
  "capitalize s = map toUpperChar (take 1 s) @ drop 1 s"

definition replacements :: "ExampleConfig \<Rightarrow> (string \<times> string) list" where
  "replacements config = [
     (''{{EXAMPLE_TITLE}}'', title config),
     (''{{EXAMPLE_DESCRIPTION}}'', description config),
     (''{{CONCEPT_EXPLANATION}}'', concept config),
     (''{{LEARNING_OBJECTIVES}}'',
        joinWith nl (map (\<lambda>obj. ''- '' @ obj) (learningObjectives config))),
     (''{{CONTRACT_DESCRIPTION}}'',
        ''This example implements '' @ [CHR 0x60] @ contractFile config @ [CHR 0x60]
          @ '', demonstrating '' @ toLowerCase (description config) @ ''.''),
     (''{{FHEVM_FEATURES}}'',
        joinWith nl (map (\<lambda>feat. ''- **'' @ feat @ ''**'') (fhevmFeatures config))),
     (''{{USAGE_EXAMPLE}}'',
        ''See '' @ [CHR 0x60] @ ''test/'' @ testFile config @ [CHR 0x60]
          @ '' for detailed usage examples with annotations.''),
     (''{{TEST_COVERAGE_POINTS}}'',
        joinWith nl (map (\<lambda>obj. ''- '' @ obj) (learningObjectives config))),
     (''{{COMMON_MISTAKES}}'',
        ''- Missing FHE.allowThis() before operations'' @ nl
          @ ''- Forgetting to grant user permissions with FHE.allow()'' @ nl
          @ ''- Incorrect input proof handling''),
     (''{{BEST_PRACTICES}}'',
        ''- Always call FHE.allowThis() for contract operations'' @ nl
          @ ''- Grant minimal necessary permissions'' @ nl
          @ ''- Use appropriate encrypted type sizes (euint8 vs euint32)''),
     (''{{USE_CASE}}'', useCaseDescription config),
     (''{{NEXT_EXAMPLES}}'',
        ''- Advanced access control patterns'' @ nl
          @ ''- Multi-party decryption'' @ nl
          @ ''- Complex encrypted calculations''),
     (''{{CHAPTER_TAG}}'', chapter config),
     (''{{DIFFICULTY_LEVEL}}'', capitalize (difficulty_str (difficulty config)))]"

definition renderReadme :: "ExampleConfig \<Rightarrow> string \<Rightarrow> string" where
  "renderReadme config content = applyReplacements (replacements config) content"

definition generateReadme :: "env \<Rightarrow> ExampleConfig \<Rightarrow> string \<Rightarrow> fs \<Rightarrow> unit outcome" where
  "generateReadme e config destPath s =
     (let templatePath = path_join [dirname e, ''../templates/hardhat-base/README.template.md''] in
      bindO (readFileSync e templatePath s) (\<lambda>content.
        writeFileSync e destPath (renderReadme config content)))"

subsection \<open>Rewriting the manifest\<close>

fun setProperty :: "json \<Rightarrow> string \<Rightarrow> json \<Rightarrow> json option" where
  "setProperty (JObj kvs) k v = Some (JObj (AList.update k v kvs))"
| "setProperty (JArr xs) k v = Some (JArr xs)"
| "setProperty _ k v = None"

definition updateManifest :: "ExampleConfig \<Rightarrow> json \<Rightarrow> json option" where
  "updateManifest config packageJson =
     (case setProperty packageJson ''name'' (JStr (''fhevm-example-'' @ name config)) of
        None \<Rightarrow> None
      | Some j \<Rightarrow> setProperty j ''description'' (JStr (description config)))"

definition updatePackageJson :: "env \<Rightarrow> ExampleConfig \<Rightarrow> string \<Rightarrow> fs \<Rightarrow> unit outcome" where
  "updatePackageJson e config destPath s =
     (let packageJsonPath = path_join [destPath, ''package.json''] in
      bindO (readFileSync e packageJsonPath s) (\<lambda>text s1.
        case parseJSON e text of
          None \<Rightarrow> Fail SyntaxError s1
        | Some packageJson \<Rightarrow>
            (case updateManifest config packageJson of
               None \<Rightarrow> Fail TypeError s1
             | Some packageJson' \<Rightarrow>
                 writeFileSync e packageJsonPath (stringifyJSON e packageJson') s1)))"

subsection \<open>Creating one example\<close>

definition baseDirOf :: "env \<Rightarrow> string option \<Rightarrow> string \<Rightarrow> string" where
  "baseDirOf e outputDir dflt =
     (case outputDir of
        None \<Rightarrow> path_join [cwd e, dflt]
      | Some d \<Rightarrow> if d = [] then path_join [cwd e, dflt] else d)"

definition copyIfExists :: "env \<Rightarrow> string \<Rightarrow> string \<Rightarrow> fs \<Rightarrow> unit outcome" where
  "copyIfExists e src dest s =
     (if existsSync e src s then copyFileSync e src dest s else Ok () s)"

definition createExample ::
  "env \<Rightarrow> nat \<Rightarrow> string \<Rightarrow> string option \<Rightarrow> fs \<Rightarrow> string outcome" where
  "createExample e fuel exampleName outputDir s =
     (case getProp EXAMPLES exampleName of
        Undefined \<Rightarrow> Fail (ProcessExit 1) s
      | Inherited nm \<Rightarrow>
          (let baseDir = baseDirOf e outputDir ''generated-examples'';
               exampleDir = path_join [baseDir, ''example-'' @ nm];
               templateDir = path_join [dirname e, ''../templates/hardhat-base'']
           in bindO (copyDirectory e fuel templateDir exampleDir s) (\<lambda>_ s1.
                Fail TypeError s1))
      | Own config \<Rightarrow>
          (let baseDir = baseDirOf e outputDir ''generated-examples'';
               exampleDir = path_join [baseDir, ''example-'' @ name config];
               templateDir = path_join [dirname e, ''../templates/hardhat-base''];
               contractSrc = path_join [dirname e, ''../examples'', name config,
                                        ''contracts'', contractFile config];
               contractDest = path_join [exampleDir, ''contracts'', contractFile config];
               testSrc = path_join [dirname e, ''../examples'', name config,
                                    ''test'', testFile config];
               testDest = path_join [exampleDir, ''test'', testFile config];
               readmePath = path_join [exampleDir, ''README.md'']
           in bindO (copyDirectory e fuel templateDir exampleDir s) (\<lambda>_ s1.
              bindO (copyIfExists e contractSrc contractDest s1) (\<lambda>_ s2.
              bindO (copyIfExists e testSrc testDest s2) (\<lambda>_ s3.
              bindO (generateReadme e config readmePath s3) (\<lambda>_ s4.
              bindO (updatePackageJson e config exampleDir s4) (\<lambda>_ s5.
                Ok exampleDir s5)))))))"

subsection \<open>Creating a category\<close>

function showNat :: "nat \<Rightarrow> string" where
  "showNat n = (if n < 10 then [char_of (48 + n)] else showNat (n div 10) @ [char_of (48 + n mod 10)])"
  by pat_completeness auto
termination
  by (relation "measure id") auto

declare showNat.simps [simp del]

definition linkEntry :: "string \<Rightarrow> ExampleConfig \<Rightarrow> string" where
  "linkEntry exName exConfig =
       ''### ['' @
       title exConfig @
       ''](./example-'' @
       exName @
       ''/)'' @ nl @
       nl @
       ''**Difficulty**: '' @
       capitalize (difficulty_str (difficulty exConfig)) @
       nl @
       nl @
       description exConfig @
       nl @
       nl @
       ''**Learn**:'' @ nl @
       joinWith nl (map (\<lambda>obj. ''- '' @ obj) (learningObjectives exConfig)) @
       nl @
       nl @
       ''[View Example '' @ [CHR 0xE2, CHR 0x86, CHR 0x92] @ ''](./example-'' @
       exName @
       ''/)'' @ nl @
       nl @
       ''---'' @ nl"

definition exampleLink :: "string \<Rightarrow> error + string" where
  "exampleLink exName =
     (case getProp EXAMPLES exName of
        Undefined \<Rightarrow> Inr []
      | Inherited _ \<Rightarrow> Inl TypeError
      | Own exConfig \<Rightarrow> Inr (linkEntry exName exConfig))"

fun collect :: "(error + 'a) list \<Rightarrow> error + 'a list" where
  "collect [] = Inr []"
| "collect (Inl err # xs) = Inl err"
| "collect (Inr x # xs) = (case collect xs of Inl err \<Rightarrow> Inl err | Inr ys \<Rightarrow> Inr (x # ys))"

definition titleOrId :: "string \<Rightarrow> string" where
  "titleOrId ex =
     (case getProp EXAMPLES ex of
        Own exConfig \<Rightarrow> if title exConfig = [] then ex else title exConfig
      | _ \<Rightarrow> ex)"

definition learningPathList :: "string list \<Rightarrow> string" where
  "learningPathList exs =
     joinWith nl (map (\<lambda>(idx, ex). showNat (idx + 1) @ ''. '' @ titleOrId ex) (enumerate 0 exs))"

definition learningPathIntro :: "string \<Rightarrow> string" where
  "learningPathIntro d =
     (if d = ''Beginner'' then ''Start here if you'' @ [CHR 0x27] @ ''re new to FHEVM!''
      else if d = ''Mixed'' then ''Follow the examples in order for best learning experience.''
      else ''Prerequisites: Complete basics category first.'')"

definition nextSteps :: "string \<Rightarrow> string" where
  "nextSteps d =
     (if d = ''Beginner'' then ''- Intermediate: Decryption Patterns'' @ nl @
       ''- Advanced: Complex FHEVM Patterns''
      else if d = ''Intermediate'' then ''- Advanced: Complex FHEVM Patterns'' @ nl @
       ''- Lending: Complete Application''
      else ''- Build your own privacy-preserving application!'' @ nl @
       ''- Contribute examples back to the community'')"

definition categoryReadmeContent :: "CategoryConfig \<Rightarrow> string \<Rightarrow> string" where
  "categoryReadmeContent config exampleLinks =
       ''# '' @
       ctitle config @
       nl @
       nl @
       ''**'' @
       cdescription config @
       ''**'' @ nl @
       nl @
       ''## Overview'' @ nl @
       nl @
       overview config @
       nl @
       nl @
       ''## Examples in This Category'' @ nl @
       nl @
       exampleLinks @
       nl @
       nl @
       ''## Getting Started'' @ nl @
       nl @
       ''Each example is a standalone Hardhat project:'' @ nl @
       nl @
       [CHR 0x60, CHR 0x60, CHR 0x60] @ ''bash'' @ nl @
       ''# Navigate to an example'' @ nl @
       ''cd example-access-control'' @ nl @
       nl @
       ''# Install dependencies'' @ nl @
       ''npm install'' @ nl @
       nl @
       ''# Run tests'' @ nl @
       ''npm test'' @ nl @
       nl @
       ''# Compile contracts'' @ nl @
       ''npm run compile'' @ nl @
       [CHR 0x60, CHR 0x60, CHR 0x60] @ nl @
       nl @
       ''## Learning Path'' @ nl @
       nl @
       learningPathIntro (cdifficulty config) @
       nl @
       nl @
       learningPathList (examples config) @
       nl @
       nl @
       ''## Real-World Application'' @ nl @
       nl @
       ''These examples are extracted from a production **Privacy-Preserving Lending Platform**:'' @
       nl @
       nl @
       ''- '' @ [CHR 0xF0, CHR 0x9F, CHR 0x94, CHR 0x92] @
       '' **Complete Privacy**: All loan amounts encrypted'' @ nl @
       ''- '' @ [CHR 0xF0, CHR 0x9F, CHR 0x92, CHR 0xB0] @
       '' **Peer-to-Peer**: Direct lending without intermediaries'' @ nl @
       ''- '' @ [CHR 0xF0, CHR 0x9F, CHR 0x9B, CHR 0xA1, CHR 0xEF, CHR 0xB8, CHR 0x8F] @
       '' **Access Control**: Granular permissions for encrypted data'' @ nl @
       ''- '' @ [CHR 0xF0, CHR 0x9F, CHR 0x93, CHR 0x8A] @
       '' **Credit Scoring**: Private risk assessment'' @ nl @
       nl @
       ''[View Full Platform '' @ [CHR 0xE2, CHR 0x86, CHR 0x92] @
       ''](https://github.com/GeovanniParker/PrivacyLending)'' @ nl @
       nl @
       ''## Resources'' @ nl @
       nl @
       ''- [Zama fhEVM Documentation](https://docs.zama.ai/fhevm)'' @ nl @
       ''- [FHEVM Examples Hub](../)'' @ nl @
       ''- [Privacy Lending Demo Video](../../PrivacyLending/PrivacyLending.mp4)'' @ nl @
       nl @
       ''## Next Steps'' @ nl @
       nl @
       ''After completing this category, explore:'' @ nl @
       nl @
       nextSteps (cdifficulty config) @
       nl @
       nl @
       ''---'' @ nl @
       nl @
       ''**Chapter**: '' @
       cname config @
       nl @
       nl @
       ''**Difficulty**: '' @
       cdifficulty config @
       nl"

definition generateCategoryReadme :: "env \<Rightarrow> CategoryConfig \<Rightarrow> string \<Rightarrow> fs \<Rightarrow> unit outcome" where
  "generateCategoryReadme e config destPath s =
     (case collect (map exampleLink (examples config)) of
        Inl err \<Rightarrow> Fail err s
      | Inr links \<Rightarrow>
          writeFileSync e destPath (categoryReadmeContent config (joinWith nl links)) s)"

fun createExamples :: "env \<Rightarrow> nat \<Rightarrow> string list \<Rightarrow> string \<Rightarrow> fs \<Rightarrow> string list outcome" where
  "createExamples e fuel [] categoryDir s = Ok [] s"
| "createExamples e fuel (exampleName # rest) categoryDir s =
     bindO (createExample e fuel exampleName (Some categoryDir) s) (\<lambda>examplePath s1.
     bindO (createExamples e fuel rest categoryDir s1) (\<lambda>paths s2.
       Ok (examplePath # paths) s2))"

definition createCategory ::
  "env \<Rightarrow> nat \<Rightarrow> string \<Rightarrow> string option \<Rightarrow> fs \<Rightarrow> string outcome" where
  "createCategory e fuel categoryName outputDir s =
     (case getProp CATEGORIES categoryName of
        Undefined \<Rightarrow> Fail (ProcessExit 1) s
      | Inherited nm \<Rightarrow>
          (let baseDir = baseDirOf e outputDir ''generated-categories'';
               categoryDir = path_join [baseDir, ''category-'' @ nm]
           in bindO (if \<not> existsSync e categoryDir s then mkdirSync e categoryDir s else Ok () s)
                (\<lambda>_ s1. Fail TypeError s1))
      | Own config \<Rightarrow>
          (let baseDir = baseDirOf e outputDir ''generated-categories'';
               categoryDir = path_join [baseDir, ''category-'' @ cname config]
           in bindO (if \<not> existsSync e categoryDir s then mkdirSync e categoryDir s else Ok () s)
                (\<lambda>_ s1.
              bindO (createExamples e fuel (examples config) categoryDir s1) (\<lambda>_ s2.
              bindO (generateCategoryReadme e config (path_join [categoryDir, ''README.md'']) s2)
                (\<lambda>_ s3. Ok categoryDir s3)))))"

subsection \<open>A small concrete installation\<close>

text \<open>
  A repository checked out at \<open>/r\<close> with the scripts in \<open>/r/s\<close>, a base template
  of two files, and the process started in \<open>/w\<close>. It is the concrete input of the
  closed theorems below.
\<close>

definition dq :: string where
  "dq = [CHR 0x22]"

definition demoManifestText :: string where
  "demoManifestText =
     ''{'' @ dq @ ''name'' @ dq @ '':'' @ dq @ ''hardhat-base'' @ dq @ '',''
       @ dq @ ''version'' @ dq @ '':'' @ dq @ ''1.0.0'' @ dq @ ''}''"

definition demoParse :: "string \<Rightarrow> json option" where
  "demoParse text =
     (if text = demoManifestText
      then Some (JObj [(''name'', JStr ''hardhat-base''), (''version'', JStr ''1.0.0'')])
      else None)"

fun demoStringify :: "json \<Rightarrow> string" where
  "demoStringify (JStr x) = dq @ x @ dq"
| "demoStringify (JObj kvs) =
     ''{'' @ joinWith '','' (map (\<lambda>(k, v). dq @ k @ dq @ '':'' @ demoStringify v) kvs) @ ''}''"
| "demoStringify _ = ''null''"

definition demoEnv :: env where
  "demoEnv = \<lparr>cwd = ''/w'', dirname = ''/r/s'',
               parseJSON = demoParse, stringifyJSON = demoStringify\<rparr>"

definition demoTemplateText :: string where
  "demoTemplateText = ''# {{EXAMPLE_TITLE}} ({{CHAPTER_TAG}}) {{EXAMPLE_TITLE}}''"

definition demoFs :: fs where
  "demoFs = [
     ([''r''], Dir),
     ([''r'', ''templates''], Dir),
     ([''r'', ''templates'', ''hardhat-base''], Dir),
     ([''r'', ''templates'', ''hardhat-base'', ''README.template.md''], File demoTemplateText),
     ([''r'', ''templates'', ''hardhat-base'', ''package.json''], File demoManifestText),
     ([''w''], Dir)]"

text \<open>The installation after the template has been copied to \<open>out/example-access-control\<close>.\<close>

definition demoFsCopied :: fs where
  "demoFsCopied = demoFs @ [
     ([''w'', ''out''], Dir),
     ([''w'', ''out'', ''example-access-control''], Dir),
     ([''w'', ''out'', ''example-access-control'', ''README.template.md''], File demoTemplateText),
     ([''w'', ''out'', ''example-access-control'', ''package.json''], File demoManifestText)]"

text \<open>The installation after \<open>create-example access-control ./out\<close>.\<close>

definition demoFsAfter :: fs where
  "demoFsAfter = demoFs @ [
     ([''w'', ''out''], Dir),
     ([''w'', ''out'', ''example-access-control''], Dir),
     ([''w'', ''out'', ''example-access-control'', ''README.template.md''], File demoTemplateText),
     ([''w'', ''out'', ''example-access-control'', ''package.json''],
        File (demoStringify (JObj [
          (''name'', JStr ''fhevm-example-access-control''),
          (''version'', JStr ''1.0.0''),
          (''description'', JStr (description ex_access_control))]))),
     ([''w'', ''out'', ''example-access-control'', ''README.md''],
        File (renderReadme ex_access_control demoTemplateText))]"

fun returned :: "'a outcome \<Rightarrow> 'a option" where
  "returned (Ok a _) = Some a"
| "returned (Fail _ _) = None"

fun failure :: "'a outcome \<Rightarrow> error option" where
  "failure (Ok _ _) = None"
| "failure (Fail err _) = Some err"

section \<open>Documentation extraction\<close>

text \<open>
  \<open>extractDocumentation\<close> of generate-docs.ts scans the text of a test file with
  \<open>/\/\*\*([\s\S]*?)\*\/\s*([\s\S]*?)(?=\/\*\*|$)/g\<close>. The functions below compute what the
  backtracking matcher computes for this pattern and for the three patterns applied to a
  comment. Whitespace (\<open>\s\<close>, \<open>trim\<close>) and line terminators are those among the code units
  below 256.
\<close>

definition isSpace :: "char \<Rightarrow> bool" where
  "isSpace c \<longleftrightarrow> c \<in> set [CHR 0x09, CHR 0x0A, CHR 0x0B, CHR 0x0C, CHR 0x0D, CHR 0x20, CHR 0xA0]"

definition isLineTerminator :: "char \<Rightarrow> bool" where
  "isLineTerminator c \<longleftrightarrow> c = CHR 0x0A \<or> c = CHR 0x0D"

definition isWord :: "char \<Rightarrow> bool" where
  "isWord c \<longleftrightarrow>
     c \<in> set ''abcdefghijklmnopqrstuvwxyzABCDEFGHIJKLMNOPQRSTUVWXYZ0123456789_''"

definition trim :: "string \<Rightarrow> string" where
  "trim s = rev (dropWhile isSpace (rev (dropWhile isSpace s)))"

text \<open>The first occurrence of a literal: the text before it and the text after it.\<close>

fun splitAtFirst :: "string \<Rightarrow> string \<Rightarrow> (string \<times> string) option" where
  "splitAtFirst pat [] = (if pat = [] then Some ([], []) else None)"
| "splitAtFirst pat (c # cs) =
     (if prefix pat (c # cs) then Some ([], drop (length pat) (c # cs))
      else map_option (\<lambda>(before, after). (c # before, after)) (splitAtFirst pat cs))"

text \<open>
  One match of the block pattern, searched from the start of \<open>s\<close>: the comment (group 1),
  the text after it up to the next opening marker or the end (group 2, leading whitespace
  skipped by \<open>\s*\<close>), and the text from \<open>lastIndex\<close> on.
\<close>

definition matchBlock :: "string \<Rightarrow> (string \<times> string \<times> string) option" where
  "matchBlock s =
     (case splitAtFirst ''/**'' s of
        None \<Rightarrow> None
      | Some (_, afterOpen) \<Rightarrow>
          (case splitAtFirst ''*/'' afterOpen of
             None \<Rightarrow> None
           | Some (comment, afterClose) \<Rightarrow>
               (let body = dropWhile isSpace afterClose in
                case splitAtFirst ''/**'' body of
                  None \<Rightarrow> Some (comment, body, [])
                | Some (code, _) \<Rightarrow> Some (comment, code, drop (length code) body))))"

function commentBlocks :: "string \<Rightarrow> (string \<times> string) list" where
  "commentBlocks s =
     (case matchBlock s of
        None \<Rightarrow> []
      | Some (comment, code, rest) \<Rightarrow> (comment, code) # commentBlocks rest)"
  by pat_completeness auto
termination
proof (relation "measure length")
  show "wf (measure length)" by simp
next
  fix s :: string and m comment r code rest
  assume m: "matchBlock s = Some m" "(comment, r) = m" "(code, rest) = r"
  have split_len: "length before + length pat + length after = length t"
    if "splitAtFirst pat t = Some (before, after)" for pat t before after
    using that
  proof (induction t arbitrary: before)
    case Nil
    then show ?case by (simp split: if_splits)
  next
    case (Cons c cs)
    show ?case
    proof (cases "prefix pat (c # cs)")
      case True
      then have "length pat \<le> length (c # cs)" by (rule prefix_length_le)
      with True Cons.prems show ?thesis by auto
    next
      case False
      with Cons show ?thesis by auto
    qed
  qed
  from m obtain pre afterOpen afterClose where
    o: "splitAtFirst ''/**'' s = Some (pre, afterOpen)"
    and c: "splitAtFirst ''*/'' afterOpen = Some (comment, afterClose)"
    and r: "length rest \<le> length (dropWhile isSpace afterClose)"
    by (auto simp: matchBlock_def Let_def split: option.splits prod.splits)
  from split_len [OF o] split_len [OF c] r length_dropWhile_le [of isSpace afterClose]
  have "length rest < length s" by simp
  then show "(rest, s) \<in> measure length" by simp
qed

declare commentBlocks.simps [simp del]

text \<open>
  \<open>text.match(/@title\s+(.+)/)\<close> and \<open>text.match(/@chapter\s+(.+)/)\<close>: group 1 of the first match.
  After the marker, \<open>\s+\<close> takes the whole run of whitespace and gives characters back one
  at a time until \<open>.\<close> finds a character that is no line terminator.
\<close>

definition markerAt :: "string \<Rightarrow> string option" where
  "markerAt after =
     (let n = length (takeWhile isSpace after) in
      case filter (\<lambda>k. k < length after \<and> \<not> isLineTerminator (after ! k)) (rev [1..<Suc n]) of
        [] \<Rightarrow> None
      | k # _ \<Rightarrow> Some (takeWhile (\<lambda>c. \<not> isLineTerminator c) (drop k after)))"

fun matchMarker :: "string \<Rightarrow> string \<Rightarrow> string option" where
  "matchMarker marker [] = None"
| "matchMarker marker (c # cs) =
     (if prefix marker (c # cs) then
        (case markerAt (drop (length marker) (c # cs)) of
           Some g \<Rightarrow> Some g
         | None \<Rightarrow> matchMarker marker cs)
      else matchMarker marker cs)"

text \<open>\<open>comment.replace(/@\w+\s+.*/g, '')\<close>.\<close>

function stripMarkers :: "string \<Rightarrow> string" where
  "stripMarkers [] = []"
| "stripMarkers (c # cs) =
     (if c = CHR ''@'' \<and> takeWhile isWord cs \<noteq> []
         \<and> takeWhile isSpace (dropWhile isWord cs) \<noteq> []
      then stripMarkers
             (dropWhile (\<lambda>x. \<not> isLineTerminator x) (dropWhile isSpace (dropWhile isWord cs)))
      else c # stripMarkers cs)"
  by pat_completeness auto
termination
proof (relation "measure length")
  show "wf (measure length)" by simp
next
  fix c :: char and cs :: string
  have "length (dropWhile (\<lambda>x. \<not> isLineTerminator x) (dropWhile isSpace (dropWhile isWord cs)))
          \<le> length cs"
    by (meson length_dropWhile_le order_trans)
  then show "(dropWhile (\<lambda>x. \<not> isLineTerminator x) (dropWhile isSpace (dropWhile isWord cs)), c # cs)
          \<in> measure length" by simp
next
  fix c :: char and cs :: string
  show "(cs, c # cs) \<in> measure length" by simp
qed

record DocSection =
  sec_title :: string
  sec_content :: string
  sec_code :: "string option"
  sec_chapter :: string

definition codeSample :: "string \<Rightarrow> string option" where
  "codeSample following =
     (let code = joinWith nl (take 20 (splitOn CHR 0x0A (trim following)))
      in if code \<noteq> [] then Some code else None)"

definition sectionOf :: "string \<Rightarrow> string \<Rightarrow> DocSection option" where
  "sectionOf comment following =
     (case matchMarker ''@title'' comment of
        None \<Rightarrow> None
      | Some titleText \<Rightarrow>
          Some \<lparr>sec_title = trim titleText,
                sec_content = trim (stripMarkers comment),
                sec_code = codeSample following,
                sec_chapter = (case matchMarker ''@chapter'' comment of
                                 Some chapterText \<Rightarrow> trim chapterText
                               | None \<Rightarrow> ''general'')\<rparr>)"

definition extractSections :: "string \<Rightarrow> DocSection list" where
  "extractSections content =
     List.map_filter (\<lambda>(comment, following). sectionOf comment following) (commentBlocks content)"

definition extractDocumentation :: "env \<Rightarrow> string \<Rightarrow> fs \<Rightarrow> DocSection list outcome" where
  "extractDocumentation e testFilePath s =
     (if \<not> existsSync e testFilePath s then Ok [] s
      else bindO (readFileSync e testFilePath s) (\<lambda>content s1. Ok (extractSections content) s1))"

text \<open>A test file with one titled block, for the closed theorems on extraction.\<close>

definition demoDocFs :: fs where
  "demoDocFs = [([''r''], Dir), ([''r'', ''t.ts''], File ''/** @title Foo */'')]"

definition dotsOrSimple :: "string \<Rightarrow> bool" where
  "dotsOrSimple s \<longleftrightarrow> s = ''..'' \<or> simpleName s"

definition exampleDirOf :: "env \<Rightarrow> string option \<Rightarrow> ExampleConfig \<Rightarrow> string" where
  "exampleDirOf e outputDir config =
     path_join [baseDirOf e outputDir ''generated-examples'', ''example-'' @ name config]"

definition templateDirOf :: "env \<Rightarrow> string" where
  "templateDirOf e = path_join [dirname e, ''../templates/hardhat-base'']"

subsection \<open>Well-formed filesystems and confined changes\<close>

definition wfFs :: "fs \<Rightarrow> bool" where
  "wfFs s \<longleftrightarrow> (\<forall>(k, n) \<in> set s. list_all simpleName k)"

text \<open>
  \<open>dirsAdded K s s'\<close>: from \<open>s\<close> to \<open>s'\<close> nothing changed except that missing directories
  on the way to \<open>K\<close> (and \<open>K\<close> itself) may have been created. \<open>confined K s s'\<close>: outside the
  subtree at \<open>K\<close> nothing changed except for missing ancestors of \<open>K\<close> that were created.
\<close>

definition dirsAdded :: "string list \<Rightarrow> fs \<Rightarrow> fs \<Rightarrow> bool" where
  "dirsAdded K s s' \<longleftrightarrow>
     (\<forall>k. nodeAt s' k = nodeAt s k
          \<or> (nodeAt s k = None \<and> nodeAt s' k = Some Dir \<and> prefix k K))"

definition confined :: "string list \<Rightarrow> fs \<Rightarrow> fs \<Rightarrow> bool" where
  "confined K s s' \<longleftrightarrow>
     (\<forall>k. \<not> prefix K k \<longrightarrow>
          nodeAt s' k = nodeAt s k
          \<or> (nodeAt s k = None \<and> nodeAt s' k = Some Dir \<and> strict_prefix k K))"

subsection \<open>Copying a directory is confined to the destination\<close>

definition good :: "string list \<Rightarrow> fs \<Rightarrow> 'a outcome \<Rightarrow> bool" where
  "good K s r \<longleftrightarrow> wfFs (finalFs r) \<and> confined K s (finalFs r)"

definition categoryDirOf :: "env \<Rightarrow> string option \<Rightarrow> CategoryConfig \<Rightarrow> string" where
  "categoryDirOf e outputDir config =
     path_join [baseDirOf e outputDir ''generated-categories'', ''category-'' @ cname config]"

subsection \<open>Running the generator twice\<close>

definition templateReadmePath :: "env \<Rightarrow> string" where
  "templateReadmePath e = path_join [dirname e, ''../templates/hardhat-base/README.template.md'']"

subsection \<open>Templates as text and placeholders\<close>

text \<open>
  A template seen as a sequence of pieces: literal text without an opening brace, and
  placeholders \<open>{{NAME}}\<close>. \<open>templateText\<close> is the text of the file, \<open>fillPiece\<close> puts the value
  of the replacement table in the place of a placeholder that the table knows.
\<close>

datatype piece = Text string | Token string

fun pieceText :: "piece \<Rightarrow> string" where
  "pieceText (Text t) = t"
| "pieceText (Token k) = k"

definition templateText :: "piece list \<Rightarrow> string" where
  "templateText ps = concat (map pieceText ps)"

definition tokenShaped :: "string \<Rightarrow> bool" where
  "tokenShaped k \<longleftrightarrow>
     4 \<le> length k \<and> take 2 k = ''{{'' \<and> drop (length k - 2) k = ''}}''
     \<and> CHR ''{'' \<notin> set (drop 2 k) \<and> CHR ''}'' \<notin> set (take (length k - 2) k)"

fun wellFormedPiece :: "piece \<Rightarrow> bool" where
  "wellFormedPiece (Text t) \<longleftrightarrow> CHR ''{'' \<notin> set t"
| "wellFormedPiece (Token k) \<longleftrightarrow> tokenShaped k"

fun fillPiece :: "(string \<times> string) list \<Rightarrow> piece \<Rightarrow> piece" where
  "fillPiece reps (Text t) = Text t"
| "fillPiece reps (Token k) = (case map_of reps k of Some v \<Rightarrow> Text v | None \<Rightarrow> Token k)"

definition fillOne :: "string \<Rightarrow> string \<Rightarrow> piece \<Rightarrow> piece" where
  "fillOne k v p = (if p = Token k then Text v else p)"

subsection \<open>When a copy succeeds\<close>

text \<open>
  \<open>apart K T\<close>: neither of the two paths lies at or beneath the other.
  \<open>mirrors Ks Kd s\<close>: whatever exists beneath \<open>Kd\<close> is what \<open>Ks\<close> has at the same relative
  path. \<open>noFileAbove K s\<close>: no file sits at \<open>K\<close> or on the way to it. \<open>shallow Ks n s\<close>: the
  directories beneath \<open>Ks\<close> are nested less than \<open>n\<close> levels deep.
\<close>

definition apart :: "string list \<Rightarrow> string list \<Rightarrow> bool" where
  "apart K T \<longleftrightarrow> \<not> prefix K T \<and> \<not> prefix T K"

definition mirrors :: "string list \<Rightarrow> string list \<Rightarrow> fs \<Rightarrow> bool" where
  "mirrors Ks Kd s \<longleftrightarrow>
     (\<forall>rel. nodeAt s (Kd @ rel) = None \<or> nodeAt s (Kd @ rel) = nodeAt s (Ks @ rel))"

definition noFileAbove :: "string list \<Rightarrow> fs \<Rightarrow> bool" where
  "noFileAbove K s \<longleftrightarrow> (\<forall>k c. prefix k K \<longrightarrow> nodeAt s k \<noteq> Some (File c))"

definition shallow :: "string list \<Rightarrow> nat \<Rightarrow> fs \<Rightarrow> bool" where
  "shallow Ks n s \<longleftrightarrow>
     (\<forall>k. prefix Ks k \<and> nodeAt s k = Some Dir \<longrightarrow> length k < length Ks + n)"

definition copyInv :: "string list \<Rightarrow> string list \<Rightarrow> nat \<Rightarrow> fs \<Rightarrow> bool" where
  "copyInv Ks Kd n s \<longleftrightarrow>
     wfFs s \<and> nodeAt s Ks = Some Dir \<and> noFileAbove Kd s \<and> shallow Ks n s \<and> mirrors Ks Kd s"

subsection \<open>When creating an example succeeds\<close>

definition contractSourceOf :: "env \<Rightarrow> ExampleConfig \<Rightarrow> string" where
  "contractSourceOf e config =
     path_join [dirname e, ''../examples'', name config, ''contracts'', contractFile config]"

definition testSourceOf :: "env \<Rightarrow> ExampleConfig \<Rightarrow> string" where
  "testSourceOf e config =
     path_join [dirname e, ''../examples'', name config, ''test'', testFile config]"

text \<open>
  \<open>overlayReady s C T sub file\<close>: the source file at \<open>C\<close> is either missing, or it is a file and
  the template at \<open>T\<close> has the directory \<open>sub\<close> to receive it, with no directory in the place
  of the file.
\<close>

definition overlayReady :: "fs \<Rightarrow> string list \<Rightarrow> string list \<Rightarrow> string \<Rightarrow> string \<Rightarrow> bool" where
  "overlayReady s C T sub file =
     (case nodeAt s C of
        None \<Rightarrow> True
      | Some Dir \<Rightarrow> False
      | Some (File c) \<Rightarrow> nodeAt s (T @ [sub]) = Some Dir \<and> nodeAt s (T @ [sub, file]) \<noteq> Some Dir)"

definition sourcesReady :: "env \<Rightarrow> ExampleConfig \<Rightarrow> fs \<Rightarrow> bool" where
  "sourcesReady e config s \<longleftrightarrow>
     overlayReady s (fsKey (cwd e) (contractSourceOf e config)) (fsKey (cwd e) (templateDirOf e))
       ''contracts'' (contractFile config)
   \<and> overlayReady s (fsKey (cwd e) (testSourceOf e config)) (fsKey (cwd e) (templateDirOf e))
       ''test'' (testFile config)"

definition manifestReady :: "env \<Rightarrow> fs \<Rightarrow> bool" where
  "manifestReady e s =
     (case nodeAt s (fsKey (cwd e) (templateDirOf e) @ [''package.json'']) of
        Some (File m) \<Rightarrow>
          (case parseJSON e m of
             Some (JObj kvs) \<Rightarrow> True
           | Some (JArr xs) \<Rightarrow> True
           | _ \<Rightarrow> False)
      | _ \<Rightarrow> False)"

definition readmeTemplateReady :: "env \<Rightarrow> fs \<Rightarrow> bool" where
  "readmeTemplateReady e s \<longleftrightarrow>
     (case nodeAt s (fsKey (cwd e) (templateReadmePath e)) of
        Some (File t) \<Rightarrow> True
      | _ \<Rightarrow> False)
   \<and> nodeAt s (fsKey (cwd e) (templateDirOf e) @ [''README.md'']) \<noteq> Some Dir"

text \<open>
  \<open>templateFacts e fuel s\<close>: the base template is a directory nested less than \<open>fuel\<close>
  levels deep, with a manifest that parses to an object and with the template of the README.
\<close>

definition templateFacts :: "env \<Rightarrow> nat \<Rightarrow> fs \<Rightarrow> bool" where
  "templateFacts e fuel s \<longleftrightarrow>
     nodeAt s (fsKey (cwd e) (templateDirOf e)) = Some Dir
   \<and> shallow (fsKey (cwd e) (templateDirOf e)) fuel s
   \<and> manifestReady e s \<and> readmeTemplateReady e s"

definition placedApart :: "env \<Rightarrow> ExampleConfig \<Rightarrow> string list \<Rightarrow> bool" where
  "placedApart e config K \<longleftrightarrow>
     apart K (fsKey (cwd e) (templateDirOf e))
   \<and> apart K (fsKey (cwd e) (templateReadmePath e))
   \<and> apart K (fsKey (cwd e) (contractSourceOf e config))
   \<and> apart K (fsKey (cwd e) (testSourceOf e config))"

definition sameApart :: "string list \<Rightarrow> fs \<Rightarrow> fs \<Rightarrow> bool" where
  "sameApart K s s' \<longleftrightarrow> (\<forall>k. apart K k \<longrightarrow> nodeAt s' k = nodeAt s k)"

subsection \<open>A destination that is free, a template that is ready\<close>

text \<open>
  The conditions under which the generator cannot fail, as checks on the filesystem:
  nothing exists at or beneath the destination \<open>K\<close>, no file sits on the way to it, and the
  directories of the template are nested less than \<open>fuel\<close> levels deep.
\<close>

definition absent :: "string list \<Rightarrow> fs \<Rightarrow> bool" where
  "absent K s \<longleftrightarrow> K \<noteq> [] \<and> list_all (\<lambda>(k, n). \<not> prefix K k) s"

definition clearAbove :: "string list \<Rightarrow> fs \<Rightarrow> bool" where
  "clearAbove K s \<longleftrightarrow> list_all (\<lambda>(k, n). prefix k K \<longrightarrow> n = Dir) s"

definition nestedWithin :: "string list \<Rightarrow> nat \<Rightarrow> fs \<Rightarrow> bool" where
  "nestedWithin T fuel s \<longleftrightarrow>
     fuel \<noteq> 0 \<and> list_all (\<lambda>(k, n). prefix T k \<and> n = Dir \<longrightarrow> length k < length T + fuel) s"

definition templateReady :: "env \<Rightarrow> nat \<Rightarrow> fs \<Rightarrow> bool" where
  "templateReady e fuel s \<longleftrightarrow>
     nodeAt s (fsKey (cwd e) (templateDirOf e)) = Some Dir
   \<and> nestedWithin (fsKey (cwd e) (templateDirOf e)) fuel s
   \<and> manifestReady e s \<and> readmeTemplateReady e s"

definition exampleReady :: "env \<Rightarrow> nat \<Rightarrow> ExampleConfig \<Rightarrow> string option \<Rightarrow> fs \<Rightarrow> bool" where
  "exampleReady e fuel config outputDir s \<longleftrightarrow>
     placedApart e config (fsKey (cwd e) (exampleDirOf e outputDir config))
   \<and> absent (fsKey (cwd e) (exampleDirOf e outputDir config)) s
   \<and> clearAbove (fsKey (cwd e) (exampleDirOf e outputDir config)) s
   \<and> templateReady e fuel s
   \<and> sourcesReady e config s"

subsection \<open>The shipped template of the README\<close>

text \<open>The text of \<open>templates/hardhat-base/README.template.md\<close> as shipped, and the same text
  cut at its placeholders.\<close>

definition baseTemplate :: string where
  "baseTemplate =
       ''# {{EXAMPLE_TITLE}}'' @ nl @
       nl @
       ''**{{EXAMPLE_DESCRIPTION}}**'' @ nl @
       nl @
       ''> Part of FHEVM Examples Hub - Learn privacy-preserving smart contract development'' @
       nl @
       nl @
       ''## Concept'' @ nl @
       nl @
       ''{{CONCEPT_EXPLANATION}}'' @ nl @
       nl @
       ''## What You'' @ [CHR 0x27] @ ''ll Learn'' @ nl @
       nl @
       ''{{LEARNING_OBJECTIVES}}'' @ nl @
       nl @
       ''## Contract Overview'' @ nl @
       nl @
       ''{{CONTRACT_DESCRIPTION}}'' @ nl @
       nl @
       ''## Key FHEVM Features'' @ nl @
       nl @
       ''{{FHEVM_FEATURES}}'' @ nl @
       nl @
       ''## Installation'' @ nl @
       nl @
       [CHR 0x60, CHR 0x60, CHR 0x60] @ ''bash'' @ nl @
       ''# Install dependencies'' @ nl @
       ''npm install'' @ nl @
       nl @
       ''# Compile contracts'' @ nl @
       ''npm run compile'' @ nl @
       nl @
       ''# Run tests'' @ nl @
       ''npm test'' @ nl @
       [CHR 0x60, CHR 0x60, CHR 0x60] @ nl @
       nl @
       ''## Usage Example'' @ nl @
       nl @
       ''{{USAGE_EXAMPLE}}'' @ nl @
       nl @
       ''## Test Coverage'' @ nl @
       nl @
       ''This example includes comprehensive tests demonstrating:'' @ nl @
       nl @
       ''{{TEST_COVERAGE_POINTS}}'' @ nl @
       nl @
       ''## Common Pitfalls'' @ nl @
       nl @
       ''{{COMMON_MISTAKES}}'' @ nl @
       nl @
       ''## Best Practices'' @ nl @
       nl @
       ''{{BEST_PRACTICES}}'' @ nl @
       nl @
       ''## Real-World Use Case'' @ nl @
       nl @
       ''{{USE_CASE}}'' @ nl @
       nl @
       ''## Next Steps'' @ nl @
       nl @
       ''After understanding this example, explore:'' @ nl @
       nl @
       ''{{NEXT_EXAMPLES}}'' @ nl @
       nl @
       ''## Resources'' @ nl @
       nl @
       ''- [Zama fhEVM Documentation](https://docs.zama.ai/fhevm)'' @ nl @
       ''- [FHEVM Examples Hub](../)'' @ nl @
       ''- [Privacy Lending Platform](https://github.com/GeovanniParker/PrivacyLending)'' @
       nl @
       nl @
       ''## License'' @ nl @
       nl @
       ''MIT License - Free to use and learn from'' @ nl @
       nl @
       ''---'' @ nl @
       nl @
       ''**Chapter**: {{CHAPTER_TAG}}'' @ nl @
       nl @
       ''**Difficulty**: {{DIFFICULTY_LEVEL}}'' @ nl"

definition baseTemplatePieces :: "piece list" where
  "baseTemplatePieces = [
     Text (''# ''),
     Token ''{{EXAMPLE_TITLE}}'',
     Text (nl @
           nl @
           ''**''),
     Token ''{{EXAMPLE_DESCRIPTION}}'',
     Text (''**'' @ nl @
           nl @
           ''> Part of FHEVM Examples Hub - Learn privacy-preserving smart contract development'' @
           nl @
           nl @
           ''## Concept'' @ nl @
           nl),
     Token ''{{CONCEPT_EXPLANATION}}'',
     Text (nl @
           nl @
           ''## What You'' @ [CHR 0x27] @ ''ll Learn'' @ nl @
           nl),
     Token ''{{LEARNING_OBJECTIVES}}'',
     Text (nl @
           nl @
           ''## Contract Overview'' @ nl @
           nl),
     Token ''{{CONTRACT_DESCRIPTION}}'',
     Text (nl @
           nl @
           ''## Key FHEVM Features'' @ nl @
           nl),
     Token ''{{FHEVM_FEATURES}}'',
     Text (nl @
           nl @
           ''## Installation'' @ nl @
           nl @
           [CHR 0x60, CHR 0x60, CHR 0x60] @ ''bash'' @ nl @
           ''# Install dependencies'' @ nl @
           ''npm install'' @ nl @
           nl @
           ''# Compile contracts'' @ nl @
           ''npm run compile'' @ nl @
           nl @
           ''# Run tests'' @ nl @
           ''npm test'' @ nl @
           [CHR 0x60, CHR 0x60, CHR 0x60] @ nl @
           nl @
           ''## Usage Example'' @ nl @
           nl),
     Token ''{{USAGE_EXAMPLE}}'',
     Text (nl @
           nl @
           ''## Test Coverage'' @ nl @
           nl @
           ''This example includes comprehensive tests demonstrating:'' @ nl @
           nl),
     Token ''{{TEST_COVERAGE_POINTS}}'',
     Text (nl @
           nl @
           ''## Common Pitfalls'' @ nl @
           nl),
     Token ''{{COMMON_MISTAKES}}'',
     Text (nl @
           nl @
           ''## Best Practices'' @ nl @
           nl),
     Token ''{{BEST_PRACTICES}}'',
     Text (nl @
           nl @
           ''## Real-World Use Case'' @ nl @
           nl),
     Token ''{{USE_CASE}}'',
     Text (nl @
           nl @
           ''## Next Steps'' @ nl @
           nl @
           ''After understanding this example, explore:'' @ nl @
           nl),
     Token ''{{NEXT_EXAMPLES}}'',
     Text (nl @
           nl @
           ''## Resources'' @ nl @
           nl @
           ''- [Zama fhEVM Documentation](https://docs.zama.ai/fhevm)'' @ nl @
           ''- [FHEVM Examples Hub](../)'' @ nl @
           ''- [Privacy Lending Platform](https://github.com/GeovanniParker/PrivacyLending)'' @
           nl @
           nl @
           ''## License'' @ nl @
           nl @
           ''MIT License - Free to use and learn from'' @ nl @
           nl @
           ''---'' @ nl @
           nl @
           ''**Chapter**: ''),
     Token ''{{CHAPTER_TAG}}'',
     Text (nl @
           nl @
           ''**Difficulty**: ''),
     Token ''{{DIFFICULTY_LEVEL}}'',
     Text (nl)]"

definition memberFacts :: "env \<Rightarrow> string list \<Rightarrow> fs \<Rightarrow> string \<Rightarrow> bool" where
  "memberFacts e K s m \<longleftrightarrow>
     (\<exists>c. getProp EXAMPLES m = Own c \<and> placedApart e c K \<and> sourcesReady e c s)
   \<and> (\<forall>k. prefix (K @ [''example-'' @ m]) k \<longrightarrow> nodeAt s k = None)"

definition memberReady :: "env \<Rightarrow> string list \<Rightarrow> fs \<Rightarrow> string \<Rightarrow> bool" where
  "memberReady e K s m =
     (case getProp EXAMPLES m of
        Own c \<Rightarrow> placedApart e c K \<and> sourcesReady e c s
      | Inherited nm \<Rightarrow> False
      | Undefined \<Rightarrow> False)"

definition categoryReady :: "env \<Rightarrow> nat \<Rightarrow> CategoryConfig \<Rightarrow> string option \<Rightarrow> fs \<Rightarrow> bool" where
  "categoryReady e fuel config outputDir s \<longleftrightarrow>
     apart (fsKey (cwd e) (categoryDirOf e outputDir config)) (fsKey (cwd e) (templateDirOf e))
   \<and> apart (fsKey (cwd e) (categoryDirOf e outputDir config))
           (fsKey (cwd e) (templateReadmePath e))
   \<and> absent (fsKey (cwd e) (categoryDirOf e outputDir config)) s
   \<and> clearAbove (fsKey (cwd e) (categoryDirOf e outputDir config)) s
   \<and> templateReady e fuel s
   \<and> list_all (memberReady e (fsKey (cwd e) (categoryDirOf e outputDir config)) s)
        (examples config)"

text \<open>The installation while \<open>create-category advanced cats\<close> runs: after the category
  directory has been made, after each of its two examples has been generated, and at the end.\<close>

definition demoAdvMade :: fs where
  "demoAdvMade = demoFs @ [
     ([''w'', ''cats''], Dir),
     ([''w'', ''cats'', ''category-advanced''], Dir)]"

definition demoAdvCopied_credit_scoring :: fs where
  "demoAdvCopied_credit_scoring = demoAdvMade @ [
     ([''w'', ''cats'', ''category-advanced'', ''example-credit-scoring''], Dir),
     ([''w'', ''cats'', ''category-advanced'', ''example-credit-scoring'', ''README.template.md''], File demoTemplateText),
     ([''w'', ''cats'', ''category-advanced'', ''example-credit-scoring'', ''package.json''], File demoManifestText)]"

definition demoAdvDone_credit_scoring :: fs where
  "demoAdvDone_credit_scoring = demoAdvMade @ [
     ([''w'', ''cats'', ''category-advanced'', ''example-credit-scoring''], Dir),
     ([''w'', ''cats'', ''category-advanced'', ''example-credit-scoring'', ''README.template.md''], File demoTemplateText),
     ([''w'', ''cats'', ''category-advanced'', ''example-credit-scoring'', ''package.json''],
        File (demoStringify (JObj [
          (''name'', JStr ''fhevm-example-credit-scoring''),
          (''version'', JStr ''1.0.0''),
          (''description'', JStr (description ex_credit_scoring))]))),
     ([''w'', ''cats'', ''category-advanced'', ''example-credit-scoring'', ''README.md''],
        File (renderReadme ex_credit_scoring demoTemplateText))]"

definition demoAdvCopied_input_proofs :: fs where
  "demoAdvCopied_input_proofs = demoAdvDone_credit_scoring @ [
     ([''w'', ''cats'', ''category-advanced'', ''example-input-proofs''], Dir),
     ([''w'', ''cats'', ''category-advanced'', ''example-input-proofs'', ''README.template.md''], File demoTemplateText),
     ([''w'', ''cats'', ''category-advanced'', ''example-input-proofs'', ''package.json''], File demoManifestText)]"

definition demoAdvDone_input_proofs :: fs where
  "demoAdvDone_input_proofs = demoAdvDone_credit_scoring @ [
     ([''w'', ''cats'', ''category-advanced'', ''example-input-proofs''], Dir),
     ([''w'', ''cats'', ''category-advanced'', ''example-input-proofs'', ''README.template.md''], File demoTemplateText),
     ([''w'', ''cats'', ''category-advanced'', ''example-input-proofs'', ''package.json''],
        File (demoStringify (JObj [
          (''name'', JStr ''fhevm-example-input-proofs''),
          (''version'', JStr ''1.0.0''),
          (''description'', JStr (description ex_input_proofs))]))),
     ([''w'', ''cats'', ''category-advanced'', ''example-input-proofs'', ''README.md''],
        File (renderReadme ex_input_proofs demoTemplateText))]"

definition demoAdvFs :: fs where
  "demoAdvFs = demoAdvDone_input_proofs @ [
     ([''w'', ''cats'', ''category-advanced'', ''README.md''],
        File (categoryReadmeContent cat_advanced
               (joinWith nl [linkEntry ''credit-scoring'' ex_credit_scoring, linkEntry ''input-proofs'' ex_input_proofs])))]"

lemma replaceFrom_Nil: "key \<noteq> [] \<Longrightarrow> replaceFrom key val pre [] = []"
  by (subst replaceFrom.simps) simp

lemma replaceFrom_match:
  "key \<noteq> [] \<Longrightarrow> rest \<noteq> [] \<Longrightarrow> prefix key rest \<Longrightarrow>
   replaceFrom key val pre rest =
     getSubstitution key pre (drop (length key) rest) val
       @ replaceFrom key val (pre @ key) (drop (length key) rest)"
  by (subst replaceFrom.simps) simp

lemma replaceFrom_nomatch:
  "key \<noteq> [] \<Longrightarrow> rest \<noteq> [] \<Longrightarrow> \<not> prefix key rest \<Longrightarrow>
   replaceFrom key val pre rest = hd rest # replaceFrom key val (pre @ [hd rest]) (tl rest)"
  by (subst replaceFrom.simps) simp

lemma getSubstitution_plain:
  "CHR ''$'' \<notin> set val \<Longrightarrow> getSubstitution m pre post val = val"
  by (induction m pre post val rule: getSubstitution.induct) auto

lemma sublist_around:
  assumes occ: "sublist w (a @ v @ b)"
    and ne: "w \<noteq> []"
    and h: "hd w \<notin> set v"
    and l: "last w \<notin> set v"
    and nsub: "\<not> set v \<subseteq> set w"
  shows "sublist w a \<or> sublist w b"
proof -
  from occ obtain p q where eq: "a @ (v @ b) = p @ (w @ q)"
    by (auto simp: sublist_def)
  then consider us where "a = p @ us" "us @ v @ b = w @ q"
    | us where "a @ us = p" "v @ b = us @ w @ q"
    unfolding append_eq_append_conv2 [of a "v @ b" p "w @ q"] by blast
  then show ?thesis
  proof cases
    case 1
    from 1(2) consider us' where "us = w @ us'"
      | us' where "us @ us' = w" "v @ b = us' @ q"
      unfolding append_eq_append_conv2 [of us "v @ b" w q] by blast
    then show ?thesis
    proof cases
      case 1
      with \<open>a = p @ us\<close> have "a = p @ w @ us'" by simp
      then show ?thesis unfolding sublist_def by blast
    next
      case 2
      from 2(2) consider t where "v = us' @ t" | t where "v @ t = us'"
        unfolding append_eq_append_conv2 [of v b us' q] by blast
      then show ?thesis
      proof cases
        case 1
        show ?thesis
        proof (cases "us' = []")
          case True
          with 2(1) \<open>a = p @ us\<close> have "a = p @ w @ []" by simp
          then show ?thesis unfolding sublist_def by blast
        next
          case False
          with 2(1) have "last w = last us'" by auto
          with False 1 l show ?thesis by auto
        qed
      next
        case 2
        with \<open>us @ us' = w\<close> nsub show ?thesis by auto
      qed
    qed
  next
    case 2
    from 2(2) consider t where "v = us @ t" "t @ b = w @ q" | t where "v @ t = us" "b = t @ w @ q"
      unfolding append_eq_append_conv2 [of v b us "w @ q"] by blast
    then show ?thesis
    proof cases
      case 1
      show ?thesis
      proof (cases t)
        case Nil
        with 1 have "b = [] @ w @ q" by simp
        then show ?thesis unfolding sublist_def by blast
      next
        case (Cons x xs)
        with 1(2) ne have "hd w = x" by (cases w) auto
        with Cons 1(1) h show ?thesis by auto
      qed
    next
      case 2
      then show ?thesis unfolding sublist_def by blast
    qed
  qed
qed

lemma prefix_replaceFrom:
  assumes "key \<noteq> []" "CHR ''$'' \<notin> set val"
    and "w \<noteq> [] \<longrightarrow> last w \<notin> set val"
    and "\<not> set val \<subseteq> set w"
    and "prefix w (replaceFrom key val pre rest)"
  shows "prefix w rest"
  using assms
proof (induction key val pre rest arbitrary: w rule: replaceFrom.induct)
  case (1 key val pre rest)
  show ?case
  proof (cases "rest = []")
    case True
    with 1(4,8) show ?thesis by (simp add: replaceFrom_Nil)
  next
    case ne: False
    show ?thesis
    proof (cases "prefix key rest")
      case True
      with ne 1(4,5,8) have p: "prefix w (val @ replaceFrom key val (pre @ key) (drop (length key) rest))"
        by (simp add: replaceFrom_match getSubstitution_plain)
      then have "prefix w val \<or> prefix val w"
        by (auto simp: prefix_append intro: prefixI)
      then show ?thesis
      proof
        assume pw: "prefix w val"
        show ?thesis
        proof (cases "w = []")
          case True then show ?thesis by simp
        next
          case False
          with pw have "last w \<in> set val"
            by (metis last_in_set set_mono_prefix subsetD)
          with False 1(6) show ?thesis by simp
        qed
      next
        assume "prefix val w"
        then have "set val \<subseteq> set w" by (rule set_mono_prefix)
        with 1(7) show ?thesis by simp
      qed
    next
      case False
      with ne 1(4,8) have p: "prefix w (hd rest # replaceFrom key val (pre @ [hd rest]) (tl rest))"
        by (simp add: replaceFrom_nomatch)
      show ?thesis
      proof (cases w)
        case Nil then show ?thesis by simp
      next
        case (Cons x xs)
        with p have x: "x = hd rest" and px: "prefix xs (replaceFrom key val (pre @ [hd rest]) (tl rest))"
          by auto
        from Cons 1(6) have c1: "xs \<noteq> [] \<longrightarrow> last xs \<notin> set val" by auto
        from Cons 1(7) have c2: "\<not> set val \<subseteq> set xs" by auto
        from 1(3)[OF 1(4) ne False 1(4) 1(5) c1 c2 px] have "prefix xs (tl rest)" .
        with x Cons ne show ?thesis by (cases rest) auto
      qed
    qed
  qed
qed

lemma sublist_replaceFrom:
  assumes "key \<noteq> []" "CHR ''$'' \<notin> set val"
    and "w \<noteq> []" "hd w \<notin> set val" "last w \<notin> set val" "\<not> set val \<subseteq> set w"
    and "sublist w (replaceFrom key val pre rest)"
  shows "sublist w rest"
  using assms
proof (induction key val pre rest rule: replaceFrom.induct)
  case (1 key val pre rest)
  show ?case
  proof (cases "rest = []")
    case True
    with 1(4,6,10) show ?thesis by (simp add: replaceFrom_Nil)
  next
    case ne: False
    show ?thesis
    proof (cases "prefix key rest")
      case True
      with ne 1(4,5,10)
      have "sublist w ([] @ val @ replaceFrom key val (pre @ key) (drop (length key) rest))"
        by (simp add: replaceFrom_match getSubstitution_plain)
      from sublist_around [OF this 1(6,7,8,9)] 1(6)
      have "sublist w (replaceFrom key val (pre @ key) (drop (length key) rest))"
        unfolding sublist_Nil_right by blast
      from 1(2) [OF 1(4) ne True 1(4,5,6,7,8,9) this]
      have "sublist w (drop (length key) rest)" .
      then show ?thesis
        by (rule sublist_order.order.trans [OF _ sublist_drop])
    next
      case False
      with ne 1(4,10)
      have "sublist w (hd rest # replaceFrom key val (pre @ [hd rest]) (tl rest))"
        by (simp add: replaceFrom_nomatch)
      then consider "prefix w (hd rest # replaceFrom key val (pre @ [hd rest]) (tl rest))"
        | "sublist w (replaceFrom key val (pre @ [hd rest]) (tl rest))"
        unfolding sublist_Cons_right by blast
      then show ?thesis
      proof cases
        case 1
        have r: "replaceFrom key val pre rest
                  = hd rest # replaceFrom key val (pre @ [hd rest]) (tl rest)"
          using ne False \<open>key \<noteq> []\<close> by (simp add: replaceFrom_nomatch)
        from 1 r have "prefix w (replaceFrom key val pre rest)" by simp
        with \<open>\<not> set val \<subseteq> set w\<close> \<open>last w \<notin> set val\<close>
        have "prefix w rest"
          using prefix_replaceFrom [of key val w pre rest] \<open>key \<noteq> []\<close> \<open>CHR ''$'' \<notin> set val\<close>
          by blast
        then show ?thesis by (rule prefix_imp_sublist)
      next
        case 2
        from "1.IH"(3) [OF \<open>key \<noteq> []\<close> ne False \<open>key \<noteq> []\<close> \<open>CHR ''$'' \<notin> set val\<close>
            \<open>w \<noteq> []\<close> \<open>hd w \<notin> set val\<close> \<open>last w \<notin> set val\<close> \<open>\<not> set val \<subseteq> set w\<close> 2]
        have "sublist w (tl rest)" .
        moreover have "sublist (tl rest) rest"
          using sublist_drop [of 1 rest] by (simp add: drop_Suc)
        ultimately show ?thesis by (rule sublist_order.order.trans)
      qed
    qed
  qed
qed

lemma key_gone_replaceFrom:
  assumes "key \<noteq> []" "CHR ''$'' \<notin> set val"
    and "hd key \<notin> set val" "last key \<notin> set val" "\<not> set val \<subseteq> set key"
  shows "\<not> sublist key (replaceFrom key val pre rest)"
  using assms
proof (induction key val pre rest rule: replaceFrom.induct)
  case (1 key val pre rest)
  show ?case
  proof (cases "rest = []")
    case True
    with 1(4) show ?thesis by (simp add: replaceFrom_Nil)
  next
    case ne: False
    show ?thesis
    proof (cases "prefix key rest")
      case True
      have r: "replaceFrom key val pre rest
                = [] @ val @ replaceFrom key val (pre @ key) (drop (length key) rest)"
        using ne True 1(4,5) by (simp add: replaceFrom_match getSubstitution_plain)
      from 1(2) [OF 1(4) ne True 1(4,5,6,7,8)]
      have "\<not> sublist key (replaceFrom key val (pre @ key) (drop (length key) rest))" .
      with sublist_around [of key "[]" val, OF _ 1(4,6,7,8)] 1(4) r
      show ?thesis by auto
    next
      case False
      have r: "replaceFrom key val pre rest
                = hd rest # replaceFrom key val (pre @ [hd rest]) (tl rest)"
        using ne False 1(4) by (simp add: replaceFrom_nomatch)
      from 1(3) [OF 1(4) ne False 1(4,5,6,7,8)]
      have n: "\<not> sublist key (replaceFrom key val (pre @ [hd rest]) (tl rest))" .
      have "\<not> prefix key (replaceFrom key val pre rest)"
        using prefix_replaceFrom [of key val key pre rest] 1(4,5,7,8) False by auto
      with n r show ?thesis by (auto simp: sublist_Cons_right)
    qed
  qed
qed

lemma replaceGlobal_keeps_absent:
  assumes "tokenKey k'" "tokenKey k" "safeValue v" "\<not> sublist k' content"
  shows "\<not> sublist k' (replaceGlobal k v content)"
proof
  assume s: "sublist k' (replaceGlobal k v content)"
  from assms(1,3) have "k' \<noteq> []" "hd k' \<notin> set v" "last k' \<notin> set v" "\<not> set v \<subseteq> set k'"
    by (auto simp: tokenKey_def safeValue_def)
  moreover from assms(2,3) have "k \<noteq> []" "CHR ''$'' \<notin> set v"
    by (auto simp: tokenKey_def safeValue_def)
  ultimately have "sublist k' content"
    using s sublist_replaceFrom [of k v k' "[]" content] by (simp add: replaceGlobal_def)
  with assms(4) show False by simp
qed

lemma replaceGlobal_removes:
  assumes "tokenKey k" "safeValue v"
  shows "\<not> sublist k (replaceGlobal k v content)"
proof -
  from assms have "k \<noteq> []" "CHR ''$'' \<notin> set v"
    "hd k \<notin> set v" "last k \<notin> set v" "\<not> set v \<subseteq> set k"
    by (auto simp: tokenKey_def safeValue_def)
  then show ?thesis
    unfolding replaceGlobal_def by (rule key_gone_replaceFrom)
qed

lemma applyReplacements_snoc:
  "applyReplacements (reps @ [(k, v)]) content = replaceGlobal k v (applyReplacements reps content)"
  by (simp add: applyReplacements_def)

lemma applyReplacements_no_token:
  assumes "list_all (\<lambda>(k, v). tokenKey k \<and> safeValue v) reps"
    and "(k, v) \<in> set reps"
  shows "\<not> sublist k (applyReplacements reps content)"
  using assms
proof (induction reps rule: rev_induct)
  case Nil
  then show ?case by simp
next
  case (snoc kv reps)
  obtain k1 v1 where kv: "kv = (k1, v1)" by (cases kv)
  from snoc.prems(1) kv have ok1: "tokenKey k1" "safeValue v1"
    and okr: "list_all (\<lambda>(k, v). tokenKey k \<and> safeValue v) reps"
    by auto
  show ?case
  proof (cases "k = k1")
    case True
    with ok1 kv show ?thesis
      by (simp add: applyReplacements_snoc replaceGlobal_removes)
  next
    case False
    with snoc.prems(2) kv have "(k, v) \<in> set reps" by auto
    with okr snoc.IH have a: "\<not> sublist k (applyReplacements reps content)" by simp
    from \<open>(k, v) \<in> set reps\<close> okr have "tokenKey k" by (auto simp: list_all_iff)
    from replaceGlobal_keeps_absent [OF this ok1 a] kv show ?thesis
      by (simp add: applyReplacements_snoc)
  qed
qed

section \<open>Registry data\<close>

text \<open>
  C10: in the registries as shipped, every member id of every category is an own key of
  \<open>EXAMPLES\<close>, and each descriptor stored under a key of \<open>EXAMPLES\<close> or of \<open>CATEGORIES\<close>
  carries that key in its name field.
\<close>

theorem registry_data_consistent:
  "list_all (\<lambda>(k, c). list_all (\<lambda>m. isOwn (getProp EXAMPLES m)) (examples c)) CATEGORIES
   \<and> list_all (\<lambda>(k, c). name c = k) EXAMPLES
   \<and> list_all (\<lambda>(k, c). cname c = k) CATEGORIES"
  by (simp add: CATEGORIES_def EXAMPLES_def getProp_def
      cat_basics_def cat_decryption_def cat_advanced_def cat_lending_def
      ex_access_control_def ex_encrypted_arithmetic_def ex_encrypted_comparison_def
      ex_user_decryption_def ex_credit_scoring_def ex_input_proofs_def)

lemma splitOn_nonempty: "splitOn c xs \<noteq> []"
  by (induction xs) (auto split: list.splits)

lemma splitOn_append_sep: "splitOn c (x @ c # y) = splitOn c x @ splitOn c y"
proof (induction x)
  case Nil
  then show ?case by simp
next
  case (Cons a x)
  then show ?case
    using splitOn_nonempty [of c x] by (cases "splitOn c x") auto
qed

lemma splitOn_no_sep: "c \<notin> set n \<Longrightarrow> splitOn c n = [n]"
  by (induction n) auto

lemma splitOn_free: "s \<in> set (splitOn c xs) \<Longrightarrow> c \<notin> set s"
proof (induction xs arbitrary: s)
  case Nil
  then show ?case by simp
next
  case (Cons a xs)
  then show ?case
    using splitOn_nonempty [of c xs]
    by (cases "splitOn c xs") (auto split: if_splits)
qed

lemma joinWith_Cons: "ys \<noteq> [] \<Longrightarrow> joinWith sep (x # ys) = x @ sep @ joinWith sep ys"
  by (cases ys) auto

lemma splitOn_joinWith:
  "segs \<noteq> [] \<Longrightarrow> \<forall>s\<in>set segs. c \<notin> set s \<Longrightarrow> splitOn c (joinWith [c] segs) = segs"
proof (induction segs)
  case Nil
  then show ?case by simp
next
  case (Cons x segs)
  show ?case
  proof (cases "segs = []")
    case True
    with Cons.prems show ?thesis by (simp add: splitOn_no_sep)
  next
    case False
    with Cons have "splitOn c (joinWith [c] segs) = segs" by simp
    moreover have "joinWith [c] (x # segs) = x @ c # joinWith [c] segs"
      using False by (simp add: joinWith_Cons)
    ultimately show ?thesis
      using Cons.prems by (simp add: splitOn_append_sep splitOn_no_sep)
  qed
qed

lemma joinWith_nonempty: "segs \<noteq> [] \<Longrightarrow> last segs \<noteq> [] \<Longrightarrow> joinWith sep segs \<noteq> []"
  by (induction sep segs rule: joinWith.induct) auto

lemma hd_joinWith: "segs \<noteq> [] \<Longrightarrow> hd segs \<noteq> [] \<Longrightarrow> hd (joinWith sep segs) = hd (hd segs)"
  by (induction sep segs rule: joinWith.induct) auto

lemma last_joinWith:
  "segs \<noteq> [] \<Longrightarrow> last segs \<noteq> [] \<Longrightarrow> last (joinWith sep segs) = last (last segs)"
  by (induction sep segs rule: joinWith.induct) (auto simp: joinWith_nonempty)

lemma normStep_skip: "s = [] \<or> s = ''.'' \<Longrightarrow> normStep allow res s = res"
  by (auto simp: normStep_def)

lemma normStep_pop:
  "res \<noteq> [] \<Longrightarrow> last res \<noteq> ''..'' \<Longrightarrow> normStep allow res ''..'' = butlast res"
  by (simp add: normStep_def)

lemma normStep_up_True:
  "res = [] \<or> last res = ''..'' \<Longrightarrow> normStep True res ''..'' = res @ [''..'']"
  by (auto simp: normStep_def)

lemma normStep_up_False:
  "res = [] \<or> last res = ''..'' \<Longrightarrow> normStep False res ''..'' = res"
  by (auto simp: normStep_def)

lemma normStep_push:
  "s \<noteq> [] \<Longrightarrow> s \<noteq> ''.'' \<Longrightarrow> s \<noteq> ''..'' \<Longrightarrow> normStep allow res s = res @ [s]"
  by (simp add: normStep_def)

lemma normStep_simple: "simpleName seg \<Longrightarrow> normStep allow res seg = res @ [seg]"
  by (simp add: simpleName_def normStep_push)

lemma foldl_normStep_simple:
  "list_all simpleName names \<Longrightarrow> foldl (normStep allow) res names = res @ names"
  by (induction names arbitrary: res) (auto simp: normStep_simple)

lemma list_all_butlast: "list_all P xs \<Longrightarrow> list_all P (butlast xs)"
  by (auto simp: list_all_iff dest: in_set_butlastD)

lemma normStep_False_simple:
  assumes "list_all simpleName res" "CHR ''/'' \<notin> set seg"
  shows "list_all simpleName (normStep False res seg)"
proof -
  consider "seg = [] \<or> seg = ''.''" | "seg = ''..''" "res \<noteq> [] \<and> last res \<noteq> ''..''"
    | "seg = ''..''" "res = [] \<or> last res = ''..''" | "seg \<noteq> []" "seg \<noteq> ''.''" "seg \<noteq> ''..''"
    by blast
  then show ?thesis
  proof cases
    case 1
    then show ?thesis using assms(1) by (simp add: normStep_skip)
  next
    case 2
    then show ?thesis using assms(1) by (simp add: normStep_pop list_all_butlast)
  next
    case 3
    then show ?thesis using assms(1) by (simp add: normStep_up_False)
  next
    case 4
    then have "simpleName seg" using assms(2) by (simp add: simpleName_def)
    with 4 show ?thesis using assms(1) by (simp add: normStep_push)
  qed
qed

lemma foldl_normStep_False_simple:
  "list_all simpleName res \<Longrightarrow> \<forall>s\<in>set segs. CHR ''/'' \<notin> set s \<Longrightarrow>
   list_all simpleName (foldl (normStep False) res segs)"
  by (induction segs arbitrary: res) (auto simp: normStep_False_simple)

lemma normStep_True_dots:
  assumes "list_all dotsOrSimple res" "CHR ''/'' \<notin> set seg"
  shows "list_all dotsOrSimple (normStep True res seg)"
proof -
  consider "seg = [] \<or> seg = ''.''" | "seg = ''..''" "res \<noteq> [] \<and> last res \<noteq> ''..''"
    | "seg = ''..''" "res = [] \<or> last res = ''..''" | "seg \<noteq> []" "seg \<noteq> ''.''" "seg \<noteq> ''..''"
    by blast
  then show ?thesis
  proof cases
    case 1
    then show ?thesis using assms(1) by (simp add: normStep_skip)
  next
    case 2
    then show ?thesis using assms(1) by (simp add: normStep_pop list_all_butlast)
  next
    case 3
    then show ?thesis using assms(1) by (simp add: normStep_up_True dotsOrSimple_def)
  next
    case 4
    then have "dotsOrSimple seg" using assms(2) by (simp add: simpleName_def dotsOrSimple_def)
    with 4 show ?thesis using assms(1) by (simp add: normStep_push)
  qed
qed

lemma foldl_normStep_True_dots:
  "list_all dotsOrSimple res \<Longrightarrow> \<forall>s\<in>set segs. CHR ''/'' \<notin> set s \<Longrightarrow>
   list_all dotsOrSimple (foldl (normStep True) res segs)"
  by (induction segs arbitrary: res) (auto simp: normStep_True_dots)

lemma renormalize:
  assumes "\<forall>s\<in>set segs. CHR ''/'' \<notin> set s"
  shows "foldl (normStep False) C (foldl (normStep True) [] segs) = foldl (normStep False) C segs"
  using assms
proof (induction segs rule: rev_induct)
  case Nil
  then show ?case by simp
next
  case (snoc s segs)
  let ?N = "foldl (normStep True) [] segs"
  from snoc have IH: "foldl (normStep False) C ?N = foldl (normStep False) C segs" by simp
  from snoc.prems have dots: "list_all dotsOrSimple ?N"
    by (intro foldl_normStep_True_dots) auto
  show ?case
  proof (cases "s = [] \<or> s = ''.''")
    case True
    then show ?thesis using IH by (simp add: normStep_skip)
  next
    case nt: False
    show ?thesis
    proof (cases "s = ''..''")
      case False
      with nt show ?thesis using IH by (simp add: normStep_push)
    next
      case up: True
      show ?thesis
      proof (cases "?N \<noteq> [] \<and> last ?N \<noteq> ''..''")
        case False
        then have e: "?N = [] \<or> last ?N = ''..''" by blast
        have "foldl (normStep False) C (?N @ [''..'']) = normStep False (foldl (normStep False) C ?N) ''..''"
          by simp
        with up IH show ?thesis by (simp add: normStep_up_True [OF e])
      next
        case True
        from True dots have "dotsOrSimple (last ?N)"
          by (simp add: list_all_iff)
        with True have sl: "simpleName (last ?N)" by (simp add: dotsOrSimple_def)
        have "foldl (normStep False) C ?N
                = foldl (normStep False) C (butlast ?N @ [last ?N])"
          using True by simp
        also have "\<dots> = foldl (normStep False) C (butlast ?N) @ [last ?N]"
          by (simp add: normStep_simple [OF sl])
        finally have "foldl (normStep False) C segs
                = foldl (normStep False) C (butlast ?N) @ [last ?N]" using IH by simp
        moreover have "normStep True ?N s = butlast ?N"
          using up True by (simp add: normStep_pop)
        moreover have "last ?N \<noteq> ''..''" using True by simp
        ultimately show ?thesis
          using up by (simp add: normStep_pop)
      qed
    qed
  qed
qed

lemma simpleName_nonempty: "simpleName n \<Longrightarrow> n \<noteq> []"
  by (simp add: simpleName_def)

lemma simpleName_noslash: "simpleName n \<Longrightarrow> CHR ''/'' \<notin> set n"
  by (simp add: simpleName_def)

lemma dotsOrSimple_noslash: "dotsOrSimple s \<Longrightarrow> CHR ''/'' \<notin> set s"
  unfolding dotsOrSimple_def simpleName_def by (elim disjE) simp_all

lemma dotsOrSimple_nonempty: "dotsOrSimple s \<Longrightarrow> s \<noteq> []"
  unfolding dotsOrSimple_def simpleName_def by (elim disjE) simp_all

lemma simple_dotsOrSimple: "simpleName s \<Longrightarrow> dotsOrSimple s"
  by (simp add: dotsOrSimple_def)

lemma splitOn_joined:
  assumes "names \<noteq> []" "list_all simpleName names"
  shows "splitOn CHR ''/'' (joinWith ''/'' (a # names)) = splitOn CHR ''/'' a @ names"
proof -
  have "splitOn CHR ''/'' (joinWith ''/'' names) = names"
    using assms by (intro splitOn_joinWith) (auto simp: list_all_iff simpleName_noslash)
  moreover have "joinWith ''/'' (a # names) = a @ CHR ''/'' # joinWith ''/'' names"
    using assms(1) by (simp add: joinWith_Cons)
  ultimately show ?thesis by (simp add: splitOn_append_sep)
qed

lemma joined_props:
  assumes "a \<noteq> []" "names \<noteq> []" "list_all simpleName names"
  shows "joinWith ''/'' (a # names) \<noteq> []"
    and "hd (joinWith ''/'' (a # names)) = hd a"
    and "last (joinWith ''/'' (a # names)) \<noteq> CHR ''/''"
proof -
  have ln: "last names \<noteq> []" "CHR ''/'' \<notin> set (last names)"
    using assms(2,3) by (auto simp: list_all_iff simpleName_def)
  show "joinWith ''/'' (a # names) \<noteq> []"
    using assms(1,2) by (simp add: joinWith_Cons)
  show "hd (joinWith ''/'' (a # names)) = hd a"
    using assms(1,2) by (simp add: joinWith_Cons)
  have "last (joinWith ''/'' (a # names)) = last (last (a # names))"
    using assms(2) ln by (intro last_joinWith) auto
  also have "\<dots> = last (last names)" using assms(2) by simp
  finally show "last (joinWith ''/'' (a # names)) \<noteq> CHR ''/''"
    using ln by (metis last_in_set)
qed

lemma path_join_eq:
  assumes "a \<noteq> []" "names \<noteq> []" "list_all simpleName names"
  shows "path_join (a # names) =
           (if isAbsolute a then ''/'' else [])
             @ joinWith ''/'' (foldl (normStep (\<not> isAbsolute a)) [] (splitOn CHR ''/'' a) @ names)"
proof -
  let ?J = "joinWith ''/'' (a # names)"
  let ?S = "foldl (normStep (\<not> isAbsolute a)) [] (splitOn CHR ''/'' a) @ names"
  have f: "filter (\<lambda>arg. arg \<noteq> []) (a # names) = a # names"
    using assms by (auto simp: list_all_iff simpleName_nonempty filter_id_conv)
  note jp = joined_props [OF assms]
  have abs: "isAbsolute ?J = isAbsolute a"
    using jp assms(1) by (simp add: isAbsolute_def)
  have ns: "normalizeString ?J (\<not> isAbsolute a) = joinWith ''/'' ?S"
    by (simp add: normalizeString_def normalizeSegments_def splitOn_joined [OF assms(2,3)]
        foldl_normStep_simple [OF assms(3)])
  have "last ?S = last names" using assms(2) by simp
  then have "last ?S \<noteq> []" using assms(2,3) by (auto simp: list_all_iff simpleName_nonempty)
  then have ne: "joinWith ''/'' ?S \<noteq> []"
    using assms(2) by (intro joinWith_nonempty) auto
  have "path_join (a # names) = normalize ?J"
    unfolding path_join_def f using jp(1) by (simp add: Let_def del: joinWith.simps)
  also have "\<dots> = (if isAbsolute a then ''/'' else []) @ joinWith ''/'' ?S"
    using jp(1,3) ne by (simp add: normalize_def abs ns Let_def del: joinWith.simps)
  finally show ?thesis .
qed

lemma isAbsolute_path_join:
  assumes "a \<noteq> []" "names \<noteq> []" "list_all simpleName names"
  shows "isAbsolute (path_join (a # names)) = isAbsolute a"
proof (cases "isAbsolute a")
  case True
  then show ?thesis by (simp add: path_join_eq [OF assms] isAbsolute_def)
next
  case False
  let ?N = "foldl (normStep True) [] (splitOn CHR ''/'' a)"
  let ?S = "?N @ names"
  have d: "list_all dotsOrSimple ?N"
    by (intro foldl_normStep_True_dots) (auto dest: splitOn_free)
  have "list_all dotsOrSimple ?S"
    using d assms(3) by (auto simp: list_all_iff intro: simple_dotsOrSimple)
  moreover have "?S \<noteq> []" using assms(2) by simp
  ultimately have "dotsOrSimple (hd ?S)"
    unfolding list_all_iff by (meson hd_in_set)
  then have h: "hd ?S \<noteq> []" "hd (hd ?S) \<noteq> CHR ''/''"
    using dotsOrSimple_nonempty [of "hd ?S"] dotsOrSimple_noslash [of "hd ?S"]
    by (auto simp del: hd_append2 dest: hd_in_set)
  have "hd (joinWith ''/'' ?S) = hd (hd ?S)"
    using h(1) assms(2) by (intro hd_joinWith) auto
  with h have "\<not> isAbsolute (joinWith ''/'' ?S)" by (simp add: isAbsolute_def)
  moreover have "path_join (a # names) = joinWith ''/'' ?S"
    using False by (simp add: path_join_eq [OF assms])
  ultimately show ?thesis using False by simp
qed

lemma fsKey_path_join:
  assumes "a \<noteq> []" "names \<noteq> []" "list_all simpleName names"
  shows "fsKey wd (path_join (a # names)) = fsKey wd a @ names"
proof (cases "isAbsolute a")
  case True
  let ?A = "foldl (normStep False) [] (splitOn CHR ''/'' a)"
  have sA: "list_all simpleName ?A"
    by (intro foldl_normStep_False_simple) (auto dest: splitOn_free)
  then have sS: "list_all simpleName (?A @ names)" using assms(3) by simp
  have pj: "path_join (a # names) = CHR ''/'' # joinWith ''/'' (?A @ names)"
    using True by (simp add: path_join_eq [OF assms])
  have "splitOn CHR ''/'' (joinWith ''/'' (?A @ names)) = ?A @ names"
    using assms(2) sS by (intro splitOn_joinWith) (auto simp: list_all_iff simpleName_noslash)
  then have "fsKey wd (path_join (a # names)) = foldl (normStep False) [] ([] # ?A @ names)"
    by (simp add: fsKey_def pj isAbsolute_def)
  also have "\<dots> = foldl (normStep False) [] (?A @ names)"
    by (simp add: normStep_skip)
  also have "\<dots> = ?A @ names"
    using foldl_normStep_simple [OF sS, of False "[]"] by simp
  finally show ?thesis using True by (simp add: fsKey_def)
next
  case False
  let ?C = "foldl (normStep False) [] (splitOn CHR ''/'' wd)"
  let ?N = "foldl (normStep True) [] (splitOn CHR ''/'' a)"
  have rel: "\<not> isAbsolute (path_join (a # names))"
    using False by (simp add: isAbsolute_path_join [OF assms])
  have pj: "path_join (a # names) = joinWith ''/'' (?N @ names)"
    using False by (simp add: path_join_eq [OF assms])
  have d: "list_all dotsOrSimple ?N"
    by (intro foldl_normStep_True_dots) (auto dest: splitOn_free)
  have "list_all dotsOrSimple (?N @ names)"
    using d assms(3) by (auto simp: list_all_iff intro: simple_dotsOrSimple)
  then have nos: "\<forall>s\<in>set (?N @ names). CHR ''/'' \<notin> set s"
    unfolding list_all_iff using dotsOrSimple_noslash by blast
  have sp: "splitOn CHR ''/'' (joinWith ''/'' (?N @ names)) = ?N @ names"
    using assms(2) nos by (intro splitOn_joinWith) auto
  have "fsKey wd (path_join (a # names))
          = foldl (normStep False) [] (splitOn CHR ''/'' (wd @ CHR ''/'' # joinWith ''/'' (?N @ names)))"
    using rel by (simp add: fsKey_def pj)
  also have "\<dots> = foldl (normStep False) ?C (?N @ names)"
    by (simp add: splitOn_append_sep sp)
  also have "\<dots> = foldl (normStep False) ?C ?N @ names"
    by (simp add: foldl_normStep_simple [OF assms(3)])
  also have "foldl (normStep False) ?C ?N = foldl (normStep False) ?C (splitOn CHR ''/'' a)"
    by (intro renormalize) (auto dest: splitOn_free)
  also have "\<dots> = fsKey wd a"
    using False by (simp add: fsKey_def splitOn_append_sep)
  finally show ?thesis .
qed

lemmas path_defs = path_join_def normalize_def normalizeString_def normalizeSegments_def
  normStep_def isAbsolute_def fsKey_def

lemmas fs_defs = bindO_def existsSync_def nodeAt_def mkdirSync_def
  readdirSync_def childNames_def copyFileSync_def readFileSync_def writeFileSync_def
  copyIfExists_def

lemma bindO_Ok:
  "bindO m f = Ok b s' \<longleftrightarrow> (\<exists>a s1. m = Ok a s1 \<and> f a s1 = Ok b s')"
  by (cases m) (auto simp: bindO_def)

lemma returned_Some: "returned r = Some a \<Longrightarrow> r = Ok a (finalFs r)"
  by (cases r) auto

lemma getProp_Own: "getProp obj k = Own v \<Longrightarrow> map_of obj k = Some v"
  by (auto simp: getProp_def split: option.splits)

lemma getProp_Own_mem: "getProp obj k = Own v \<Longrightarrow> (k, v) \<in> set obj"
  by (auto dest: getProp_Own map_of_SomeD)

subsection \<open>The concrete installation, run step by step\<close>

lemma getProp_access_control: "getProp EXAMPLES ''access-control'' = Own ex_access_control"
  by (simp add: getProp_def EXAMPLES_def)

lemma access_control_fields:
  "name ex_access_control = ''access-control''"
  "contractFile ex_access_control = ''LendingAccessControl.sol''"
  "testFile ex_access_control = ''AccessControl.test.ts''"
  by (simp_all add: ex_access_control_def)

lemma demo_templateDir:
  "path_join [dirname demoEnv, ''../templates/hardhat-base''] = ''/r/templates/hardhat-base''"
  by (simp add: path_defs demoEnv_def)

lemma demo_templatePath:
  "path_join [dirname demoEnv, ''../templates/hardhat-base/README.template.md'']
     = ''/r/templates/hardhat-base/README.template.md''"
  by (simp add: path_defs demoEnv_def)

lemma demo_exampleDir:
  "path_join [baseDirOf demoEnv (Some ''./out'') ''generated-examples'',
              ''example-'' @ name ex_access_control] = ''out/example-access-control''"
  by (simp add: path_defs baseDirOf_def access_control_fields)

lemma demo_copy:
  "copyDirectory demoEnv (Suc 0) ''/r/templates/hardhat-base'' ''out/example-access-control'' demoFs
     = Ok () demoFsCopied"
  by (simp add: path_defs fs_defs demoEnv_def demoFs_def demoFsCopied_def)

lemma demo_contract_absent:
  "copyIfExists demoEnv
     (path_join [dirname demoEnv, ''../examples'', name ex_access_control, ''contracts'',
                 contractFile ex_access_control])
     (path_join [''out/example-access-control'', ''contracts'', contractFile ex_access_control])
     demoFsCopied = Ok () demoFsCopied"
  by (simp add: path_defs demoEnv_def access_control_fields copyIfExists_def existsSync_def
      nodeAt_def demoFsCopied_def demoFs_def)

lemma demo_test_absent:
  "copyIfExists demoEnv
     (path_join [dirname demoEnv, ''../examples'', name ex_access_control, ''test'',
                 testFile ex_access_control])
     (path_join [''out/example-access-control'', ''test'', testFile ex_access_control])
     demoFsCopied = Ok () demoFsCopied"
  by (simp add: path_defs demoEnv_def access_control_fields copyIfExists_def existsSync_def
      nodeAt_def demoFsCopied_def demoFs_def)

lemma demo_readme:
  "generateReadme demoEnv ex_access_control
     (path_join [''out/example-access-control'', ''README.md'']) demoFsCopied
     = Ok () (demoFsCopied @
         [([''w'', ''out'', ''example-access-control'', ''README.md''],
           File (renderReadme ex_access_control demoTemplateText))])"
  unfolding generateReadme_def demo_templatePath
  by (simp add: path_defs demoEnv_def readFileSync_def writeFileSync_def bindO_def
      nodeAt_def demoFsCopied_def demoFs_def)

lemma demo_manifest:
  "updatePackageJson demoEnv ex_access_control ''out/example-access-control''
     (demoFsCopied @
         [([''w'', ''out'', ''example-access-control'', ''README.md''],
           File (renderReadme ex_access_control demoTemplateText))])
     = Ok () demoFsAfter"
  by (simp add: updatePackageJson_def path_defs demoEnv_def readFileSync_def writeFileSync_def
      bindO_def nodeAt_def demoFsCopied_def demoFs_def demoFsAfter_def demoParse_def
      updateManifest_def access_control_fields)

lemma demo_run:
  "createExample demoEnv (Suc 0) ''access-control'' (Some ''./out'') demoFs
     = Ok ''out/example-access-control'' demoFsAfter"
  by (simp only: createExample_def getProp_access_control jsprop.case Let_def
      demo_templateDir demo_exampleDir bindO_def outcome.case
      demo_copy demo_contract_absent demo_test_absent demo_readme demo_manifest)

lemma demo_rendered:
  "renderReadme ex_access_control demoTemplateText
     = ''# Access Control for Encrypted Data (access-control) Access Control for Encrypted Data''"
  by code_simp

lemma demo_exampleDir_key:
  "fsKey (cwd demoEnv) ''out/example-access-control'' = [''w'', ''out'', ''example-access-control'']"
  by (simp add: path_defs demoEnv_def)

lemma demo_readme_key:
  "fsKey (cwd demoEnv) (path_join [''out/example-access-control'', ''README.md''])
     = [''w'', ''out'', ''example-access-control'', ''README.md'']"
  by (simp add: path_defs demoEnv_def)

lemma demo_manifest_key:
  "fsKey (cwd demoEnv) (path_join [''out/example-access-control'', ''package.json''])
     = [''w'', ''out'', ''example-access-control'', ''package.json'']"
  by (simp add: path_defs demoEnv_def)

lemma demo_readme_after:
  "nodeAt demoFsAfter [''w'', ''out'', ''example-access-control'', ''README.md'']
     = Some (File (renderReadme ex_access_control demoTemplateText))"
  by (simp add: nodeAt_def demoFsAfter_def demoFs_def)

subsection \<open>Single filesystem operations\<close>

lemma nodeAt_update:
  "k \<noteq> [] \<Longrightarrow> nodeAt (AList.update k v s) k' = (if k' = k then Some v else nodeAt s k')"
  by (auto simp: nodeAt_def update_conv')

lemma writeFileSync_Ok:
  assumes "writeFileSync e p c s = Ok u s'"
  shows "s' = AList.update (fsKey (cwd e) p) (File c) s"
    and "fsKey (cwd e) p \<noteq> []"
    and "nodeAt s (butlast (fsKey (cwd e) p)) = Some Dir"
  using assms
  by (auto simp: writeFileSync_def Let_def split: if_splits option.splits node.splits)

lemma writeFileSync_final:
  assumes "writeFileSync e p c s = r"
  shows "finalFs r = s \<or> (fsKey (cwd e) p \<noteq> [] \<and> finalFs r = AList.update (fsKey (cwd e) p) (File c) s)"
  using assms
  by (auto simp: writeFileSync_def Let_def split: if_splits option.splits node.splits)

lemma readFileSync_Ok:
  "readFileSync e p s = Ok c s' \<Longrightarrow> s' = s \<and> nodeAt s (fsKey (cwd e) p) = Some (File c)"
  by (auto simp: readFileSync_def split: option.splits node.splits)

lemma readFileSync_final: "finalFs (readFileSync e p s) = s"
  by (auto simp: readFileSync_def split: option.splits node.splits)

lemma normalize_nonempty: "normalize path \<noteq> []"
  by (simp add: normalize_def Let_def)

lemma path_join_nonempty: "path_join args \<noteq> []"
  by (simp add: path_join_def Let_def normalize_nonempty)

lemma generateReadme_Ok:
  assumes "generateReadme e config destPath s = Ok u s'"
  shows "\<exists>template. s' = AList.update (fsKey (cwd e) destPath) (File (renderReadme config template)) s
           \<and> fsKey (cwd e) destPath \<noteq> []
           \<and> nodeAt s (fsKey (cwd e)
                 (path_join [dirname e, ''../templates/hardhat-base/README.template.md'']))
               = Some (File template)"
proof -
  from assms obtain template s1 where
    r: "readFileSync e (path_join [dirname e, ''../templates/hardhat-base/README.template.md'']) s
          = Ok template s1"
    and w: "writeFileSync e destPath (renderReadme config template) s1 = Ok u s'"
    unfolding generateReadme_def Let_def bindO_Ok by blast
  from readFileSync_Ok [OF r] writeFileSync_Ok [OF w] show ?thesis by blast
qed

lemma updatePackageJson_Ok:
  assumes "updatePackageJson e config destPath s = Ok u s'"
  shows "\<exists>c. s' = AList.update (fsKey (cwd e) (path_join [destPath, ''package.json''])) (File c) s
           \<and> fsKey (cwd e) (path_join [destPath, ''package.json'']) \<noteq> []"
proof -
  from assms obtain raw s1 where
    r: "readFileSync e (path_join [destPath, ''package.json'']) s = Ok raw s1"
    and rest: "(case parseJSON e raw of
          None \<Rightarrow> Fail SyntaxError s1
        | Some packageJson \<Rightarrow>
            (case updateManifest config packageJson of
               None \<Rightarrow> Fail TypeError s1
             | Some packageJson' \<Rightarrow>
                 writeFileSync e (path_join [destPath, ''package.json''])
                   (stringifyJSON e packageJson') s1)) = Ok u s'"
    unfolding updatePackageJson_def Let_def bindO_Ok by blast
  from readFileSync_Ok [OF r] have s1: "s1 = s" by simp
  from rest obtain j where
    w: "writeFileSync e (path_join [destPath, ''package.json'']) (stringifyJSON e j) s1 = Ok u s'"
    by (auto split: option.splits)
  from writeFileSync_Ok [OF w] s1 show ?thesis by blast
qed

subsection \<open>Facts about the registry\<close>

lemma EXAMPLES_names_simple:
  "list_all (\<lambda>(k, c). name c = k \<and> simpleName (contractFile c) \<and> simpleName (testFile c)
      \<and> simpleName (''example-'' @ name c)) EXAMPLES"
  by code_simp

lemma example_dir_simple:
  "getProp EXAMPLES k = Own config \<Longrightarrow> simpleName (''example-'' @ name config)"
  using EXAMPLES_names_simple by (auto simp: list_all_iff dest!: getProp_Own_mem)

lemma createExample_Own_path:
  assumes "getProp EXAMPLES exampleName = Own config"
    and "createExample e fuel exampleName outputDir s = Ok p s'"
  shows "p = path_join [baseDirOf e outputDir ''generated-examples'', ''example-'' @ name config]"
  using assms by (auto simp: createExample_def Let_def bindO_Ok)

lemma baseDirOf_absolute:
  assumes "isAbsolute (cwd e)"
  shows "baseDirOf e outputDir ''generated-examples'' \<noteq> []"
    and "isAbsolute (baseDirOf e outputDir ''generated-examples'')
           \<longleftrightarrow> (case outputDir of None \<Rightarrow> True | Some d \<Rightarrow> d = [] \<or> isAbsolute d)"
proof -
  have sn: "list_all simpleName [''generated-examples'']" by (simp add: simpleName_def)
  from assms have ne: "cwd e \<noteq> []" by (auto simp: isAbsolute_def)
  have a: "isAbsolute (path_join [cwd e, ''generated-examples''])"
    using isAbsolute_path_join [OF ne _ sn] assms by simp
  then have n: "path_join [cwd e, ''generated-examples''] \<noteq> []"
    by (auto simp: isAbsolute_def)
  show "baseDirOf e outputDir ''generated-examples'' \<noteq> []"
    using n by (auto simp: baseDirOf_def split: option.splits)
  show "isAbsolute (baseDirOf e outputDir ''generated-examples'')
           \<longleftrightarrow> (case outputDir of None \<Rightarrow> True | Some d \<Rightarrow> d = [] \<or> isAbsolute d)"
    using a by (auto simp: baseDirOf_def split: option.splits)
qed

text \<open>
  C9 (as amended): for a key of \<open>EXAMPLES\<close>, a successful \<open>createExample\<close> returns
  \<open>path.join(baseDir, 'example-<id>')\<close>; with an absolute working directory that path is
  absolute exactly when the output directory argument is absent, empty or itself absolute.
\<close>

theorem createExample_returns_joined_path:
  assumes "getProp EXAMPLES exampleName = Own config"
    and "isAbsolute (cwd e)"
    and "createExample e fuel exampleName outputDir s = Ok p s'"
  shows "p = path_join [baseDirOf e outputDir ''generated-examples'', ''example-'' @ name config]
         \<and> (isAbsolute p \<longleftrightarrow> (case outputDir of None \<Rightarrow> True | Some d \<Rightarrow> d = [] \<or> isAbsolute d))"
proof -
  have p: "p = path_join [baseDirOf e outputDir ''generated-examples'', ''example-'' @ name config]"
    using assms(1,3) by (rule createExample_Own_path)
  have sn: "list_all simpleName [''example-'' @ name config]"
    using example_dir_simple [OF assms(1)] by simp
  have "isAbsolute p = isAbsolute (baseDirOf e outputDir ''generated-examples'')"
    unfolding p using baseDirOf_absolute(1) [OF assms(2)] sn
    by (intro isAbsolute_path_join) auto
  with p baseDirOf_absolute(2) [OF assms(2)] show ?thesis by simp
qed

theorem createExample_returns_joined_path_witness:
  "getProp EXAMPLES ''access-control'' = Own ex_access_control
   \<and> isAbsolute (cwd demoEnv)
   \<and> createExample demoEnv (Suc 0) ''access-control'' (Some ''./out'') demoFs
       = Ok ''out/example-access-control'' demoFsAfter
   \<and> \<not> isAbsolute ''out/example-access-control''"
proof -
  have h2: "isAbsolute (cwd demoEnv)" by (simp add: demoEnv_def isAbsolute_def)
  from createExample_returns_joined_path [OF getProp_access_control h2 demo_run, THEN conjunct2]
  have "\<not> isAbsolute ''out/example-access-control''" by (simp add: isAbsolute_def)
  with h2 show ?thesis by (simp only: getProp_access_control demo_run simp_thms)
qed

text \<open>
  C9 as stated fails: with the relative output directory \<open>./out\<close> the call succeeds and
  returns the relative path \<open>out/example-access-control\<close>.
\<close>

theorem createExample_relative_result:
  "returned (createExample demoEnv (Suc 0) ''access-control'' (Some ''./out'') demoFs)
     = Some ''out/example-access-control''
   \<and> \<not> isAbsolute ''out/example-access-control''"
  by (simp add: demo_run isAbsolute_def)

lemma update_keys_order:
  "map fst (AList.update k v al) = map fst al @ filter (\<lambda>x. x \<notin> set (map fst al)) [k]"
  by (induction al) auto

lemma updateManifest_object:
  "updateManifest config (JObj kvs) =
     Some (JObj (AList.update ''description'' (JStr (description config))
                  (AList.update ''name'' (JStr (''fhevm-example-'' @ name config)) kvs)))"
  by (simp add: updateManifest_def)

text \<open>
  C8: when the destination manifest parses to an object, \<open>updatePackageJson\<close> writes back the
  serialisation of an object whose \<open>name\<close> is \<open>fhevm-example-<id>\<close> and whose \<open>description\<close>
  is the descriptor's; every other key keeps its value, the keys keep their order, and a
  key that was missing is appended at the end.
\<close>

theorem updatePackageJson_rewrites_name_and_description:
  assumes "nodeAt s (fsKey (cwd e) (path_join [destPath, ''package.json''])) = Some (File text)"
    and "nodeAt s (butlast (fsKey (cwd e) (path_join [destPath, ''package.json'']))) = Some Dir"
    and "parseJSON e text = Some (JObj kvs)"
  shows "\<exists>kvs'.
           updatePackageJson e config destPath s
             = Ok () (AList.update (fsKey (cwd e) (path_join [destPath, ''package.json'']))
                        (File (stringifyJSON e (JObj kvs'))) s)
         \<and> map_of kvs' ''name'' = Some (JStr (''fhevm-example-'' @ name config))
         \<and> map_of kvs' ''description'' = Some (JStr (description config))
         \<and> (\<forall>k. k \<noteq> ''name'' \<and> k \<noteq> ''description'' \<longrightarrow> map_of kvs' k = map_of kvs k)
         \<and> map fst kvs' = map fst kvs
              @ filter (\<lambda>k. k \<notin> set (map fst kvs)) [''name'']
              @ filter (\<lambda>k. k \<notin> set (map fst kvs) \<and> k \<noteq> ''name'') [''description'']"
proof -
  let ?kvs1 = "AList.update ''name'' (JStr (''fhevm-example-'' @ name config)) kvs"
  let ?kvs' = "AList.update ''description'' (JStr (description config)) ?kvs1"
  let ?k = "fsKey (cwd e) (path_join [destPath, ''package.json''])"
  from assms(1) have "?k \<noteq> []" by (auto simp: nodeAt_def)
  with assms have run: "updatePackageJson e config destPath s
      = Ok () (AList.update ?k (File (stringifyJSON e (JObj ?kvs'))) s)"
    by (simp add: updatePackageJson_def bindO_def updateManifest_object readFileSync_def
        writeFileSync_def Let_def)
  have nd: "''name'' \<noteq> ''description''" by simp
  have n: "map_of ?kvs' ''name'' = Some (JStr (''fhevm-example-'' @ name config))"
    using nd by (simp add: update_conv')
  have d: "map_of ?kvs' ''description'' = Some (JStr (description config))"
    by (simp add: update_conv')
  have o: "\<forall>k. k \<noteq> ''name'' \<and> k \<noteq> ''description'' \<longrightarrow> map_of ?kvs' k = map_of kvs k"
    by (simp add: update_conv')
  have k1: "map fst ?kvs1 = map fst kvs @ filter (\<lambda>k. k \<notin> set (map fst kvs)) [''name'']"
    by (rule update_keys_order)
  have "map fst ?kvs' = map fst ?kvs1 @ filter (\<lambda>k. k \<notin> set (map fst ?kvs1)) [''description'']"
    by (rule update_keys_order)
  also have "filter (\<lambda>k. k \<notin> set (map fst ?kvs1)) [''description'']
      = filter (\<lambda>k. k \<notin> set (map fst kvs) \<and> k \<noteq> ''name'') [''description'']"
    unfolding k1 using nd by auto
  finally have ord: "map fst ?kvs' = map fst kvs
              @ filter (\<lambda>k. k \<notin> set (map fst kvs)) [''name'']
              @ filter (\<lambda>k. k \<notin> set (map fst kvs) \<and> k \<noteq> ''name'') [''description'']"
    unfolding k1 by simp
  show ?thesis by (rule exI [of _ ?kvs']) (intro conjI run n d o ord)
qed

lemma demo_template_manifest_key:
  "fsKey (cwd demoEnv) (path_join [''/r/templates/hardhat-base'', ''package.json''])
     = [''r'', ''templates'', ''hardhat-base'', ''package.json'']"
  by (simp add: path_defs demoEnv_def)

theorem updatePackageJson_rewrites_name_and_description_witness:
  "\<exists>kvs'.
     updatePackageJson demoEnv ex_access_control ''/r/templates/hardhat-base'' demoFs
       = Ok () (AList.update [''r'', ''templates'', ''hardhat-base'', ''package.json'']
                  (File (demoStringify (JObj kvs'))) demoFs)
     \<and> map_of kvs' ''name'' = Some (JStr ''fhevm-example-access-control'')
     \<and> map_of kvs' ''version'' = Some (JStr ''1.0.0'')
     \<and> map fst kvs' = [''name'', ''version'', ''description'']"
proof -
  let ?k = "fsKey (cwd demoEnv) (path_join [''/r/templates/hardhat-base'', ''package.json''])"
  have h1: "nodeAt demoFs ?k = Some (File demoManifestText)"
    unfolding demo_template_manifest_key by (simp add: nodeAt_def demoFs_def)
  have h2: "nodeAt demoFs (butlast ?k) = Some Dir"
    unfolding demo_template_manifest_key by (simp add: nodeAt_def demoFs_def)
  have h3: "parseJSON demoEnv demoManifestText
              = Some (JObj [(''name'', JStr ''hardhat-base''), (''version'', JStr ''1.0.0'')])"
    by (simp add: demoEnv_def demoParse_def)
  from updatePackageJson_rewrites_name_and_description [OF h1 h2 h3, of ex_access_control]
  obtain kvs' where
    r: "updatePackageJson demoEnv ex_access_control ''/r/templates/hardhat-base'' demoFs
          = Ok () (AList.update ?k (File (stringifyJSON demoEnv (JObj kvs'))) demoFs)"
    and n: "map_of kvs' ''name'' = Some (JStr (''fhevm-example-'' @ name ex_access_control))"
    and o: "\<forall>k. k \<noteq> ''name'' \<and> k \<noteq> ''description''
              \<longrightarrow> map_of kvs' k = map_of [(''name'', JStr ''hardhat-base''), (''version'', JStr ''1.0.0'')] k"
    and ks: "map fst kvs' = map fst [(''name'', JStr ''hardhat-base''), (''version'', JStr ''1.0.0'')]
              @ filter (\<lambda>k. k \<notin> set (map fst [(''name'', JStr ''hardhat-base''), (''version'', JStr ''1.0.0'')])) [''name'']
              @ filter (\<lambda>k. k \<notin> set (map fst [(''name'', JStr ''hardhat-base''), (''version'', JStr ''1.0.0'')]) \<and> k \<noteq> ''name'') [''description'']"
    by blast
  from r have r': "updatePackageJson demoEnv ex_access_control ''/r/templates/hardhat-base'' demoFs
       = Ok () (AList.update [''r'', ''templates'', ''hardhat-base'', ''package.json'']
                  (File (demoStringify (JObj kvs'))) demoFs)"
    unfolding demo_template_manifest_key by (simp add: demoEnv_def)
  from n have n': "map_of kvs' ''name'' = Some (JStr ''fhevm-example-access-control'')"
    by (simp add: ex_access_control_def)
  from o have v: "map_of kvs' ''version'' = Some (JStr ''1.0.0'')" by simp
  from ks have ks': "map fst kvs' = [''name'', ''version'', ''description'']" by simp
  show ?thesis by (rule exI [of _ kvs']) (intro conjI r' n' v ks')
qed

lemma createExample_unknown_exits:
  "getProp EXAMPLES exampleName = Undefined \<Longrightarrow>
   createExample e fuel exampleName outputDir s = Fail (ProcessExit 1) s"
  by (simp add: createExample_def)

lemma getProp_constructor: "getProp EXAMPLES ''constructor'' = Inherited ''Object''"
  by (simp add: getProp_def EXAMPLES_def objectPrototype_def)

lemma demo_copy_Object:
  "copyDirectory demoEnv (Suc 0) ''/r/templates/hardhat-base'' ''out/example-Object'' demoFs
     = Ok () (demoFs @ [
         ([''w'', ''out''], Dir),
         ([''w'', ''out'', ''example-Object''], Dir),
         ([''w'', ''out'', ''example-Object'', ''README.template.md''], File demoTemplateText),
         ([''w'', ''out'', ''example-Object'', ''package.json''], File demoManifestText)])"
  by (simp add: path_defs fs_defs demoEnv_def demoFs_def)

lemma demo_exampleDir_Object:
  "path_join [baseDirOf demoEnv (Some ''out'') ''generated-examples'', ''example-'' @ ''Object'']
     = ''out/example-Object''"
  by (simp add: path_defs baseDirOf_def)

text \<open>
  C3 at the input \<open>constructor\<close>: the id is not a key of \<open>EXAMPLES\<close>, yet the lookup
  \<open>EXAMPLES['constructor']\<close> is truthy, the guard is passed, the template is copied to
  \<open>out/example-Object\<close>, and the run then stops with a \<open>TypeError\<close>.
\<close>

theorem createExample_prototype_key_writes:
  "map_of EXAMPLES ''constructor'' = None
   \<and> createExample demoEnv (Suc 0) ''constructor'' (Some ''out'') demoFs
       = Fail TypeError (demoFs @ [
           ([''w'', ''out''], Dir),
           ([''w'', ''out'', ''example-Object''], Dir),
           ([''w'', ''out'', ''example-Object'', ''README.template.md''], File demoTemplateText),
           ([''w'', ''out'', ''example-Object'', ''package.json''], File demoManifestText)])"
proof -
  have "map_of EXAMPLES ''constructor'' = None" by (simp add: EXAMPLES_def)
  moreover have "createExample demoEnv (Suc 0) ''constructor'' (Some ''out'') demoFs
       = Fail TypeError (demoFs @ [
           ([''w'', ''out''], Dir),
           ([''w'', ''out'', ''example-Object''], Dir),
           ([''w'', ''out'', ''example-Object'', ''README.template.md''], File demoTemplateText),
           ([''w'', ''out'', ''example-Object'', ''package.json''], File demoManifestText)])"
    by (simp only: createExample_def getProp_constructor jsprop.case Let_def
        demo_templateDir demo_exampleDir_Object bindO_def outcome.case demo_copy_Object)
  ultimately show ?thesis by (rule conjI)
qed

lemma createExample_Own_steps:
  assumes "getProp EXAMPLES exampleName = Own config"
    and "createExample e fuel exampleName outputDir s = Ok p s'"
  shows "\<exists>s1 s2 s3 s4.
      p = exampleDirOf e outputDir config
    \<and> copyDirectory e fuel (templateDirOf e) p s = Ok () s1
    \<and> copyIfExists e
          (path_join [dirname e, ''../examples'', name config, ''contracts'', contractFile config])
          (path_join [p, ''contracts'', contractFile config]) s1 = Ok () s2
    \<and> copyIfExists e
          (path_join [dirname e, ''../examples'', name config, ''test'', testFile config])
          (path_join [p, ''test'', testFile config]) s2 = Ok () s3
    \<and> generateReadme e config (path_join [p, ''README.md'']) s3 = Ok () s4
    \<and> updatePackageJson e config p s4 = Ok () s'"
proof -
  from assms(2) obtain u1 s1 u2 s2 u3 s3 u4 s4 u5 s5 where
    c: "copyDirectory e fuel (templateDirOf e) (exampleDirOf e outputDir config) s = Ok u1 s1"
    and c1: "copyIfExists e
          (path_join [dirname e, ''../examples'', name config, ''contracts'', contractFile config])
          (path_join [exampleDirOf e outputDir config, ''contracts'', contractFile config]) s1
          = Ok u2 s2"
    and c2: "copyIfExists e
          (path_join [dirname e, ''../examples'', name config, ''test'', testFile config])
          (path_join [exampleDirOf e outputDir config, ''test'', testFile config]) s2 = Ok u3 s3"
    and g: "generateReadme e config (path_join [exampleDirOf e outputDir config, ''README.md'']) s3
          = Ok u4 s4"
    and u: "updatePackageJson e config (exampleDirOf e outputDir config) s4 = Ok u5 s5"
    and r: "Ok (exampleDirOf e outputDir config) s5 = Ok p s'"
    unfolding createExample_def assms(1) jsprop.case Let_def bindO_Ok
      exampleDirOf_def [symmetric] templateDirOf_def [symmetric]
    by blast
  from r have p: "p = exampleDirOf e outputDir config" and s5: "s5 = s'" by simp_all
  show ?thesis
    using c c1 c2 g u unfolding p s5 by (intro exI [of _ s1] exI [of _ s2] exI [of _ s3] exI [of _ s4]) simp
qed

lemma EXAMPLES_values_safe:
  "list_all (\<lambda>(k, c). list_all (\<lambda>(k, v). tokenKey k \<and> safeValue v) (replacements c)) EXAMPLES"
  by code_simp

lemma replacements_safe:
  "getProp EXAMPLES k = Own config \<Longrightarrow>
   list_all (\<lambda>(k, v). tokenKey k \<and> safeValue v) (replacements config)"
  using EXAMPLES_values_safe unfolding list_all_iff by (auto dest!: getProp_Own_mem)

lemma renderReadme_no_token:
  assumes "getProp EXAMPLES exampleName = Own config" "(k, v) \<in> set (replacements config)"
  shows "\<not> sublist k (renderReadme config template)"
  unfolding renderReadme_def
  using replacements_safe [OF assms(1)] assms(2) by (rule applyReplacements_no_token)

lemma joined_key:
  "a \<noteq> [] \<Longrightarrow> simpleName n \<Longrightarrow> fsKey wd (path_join [a, n]) = fsKey wd a @ [n]"
  using fsKey_path_join [of a "[n]" wd] by simp

subsection \<open>First occurrences\<close>

lemma prefix_before_overlap:
  assumes "prefix pat (pre @ pat @ rest)" "pre \<noteq> []"
  shows "sublist pat (pre @ butlast pat)"
proof -
  have "pat \<noteq> [] \<Longrightarrow> prefix (pre @ butlast pat) (pre @ pat @ rest)"
    by (metis append_butlast_last_id append.assoc prefixI same_prefix_prefix)
  moreover have "length pat \<le> length (pre @ butlast pat)"
    using assms(2) by (cases pre) auto
  ultimately have "pat \<noteq> [] \<Longrightarrow> prefix pat (pre @ butlast pat)"
    using assms(1) prefix_length_prefix by blast
  then show ?thesis by (cases "pat = []") auto
qed

lemma splitAtFirst_first:
  assumes "pat \<noteq> []" "\<not> sublist pat (pre @ butlast pat)"
  shows "splitAtFirst pat (pre @ pat @ rest) = Some (pre, rest)"
  using assms(2)
proof (induction pre)
  case Nil
  with assms(1) show ?case by (cases pat) auto
next
  case (Cons c pre)
  from Cons.prems have np: "\<not> prefix pat ((c # pre) @ pat @ rest)"
    using prefix_before_overlap [of pat "c # pre" rest] by blast
  from Cons.prems have "\<not> sublist pat (pre @ butlast pat)"
    by (auto simp: sublist_Cons_right)
  with Cons.IH have "splitAtFirst pat (pre @ pat @ rest) = Some (pre, rest)" by simp
  with np show ?case by simp
qed

lemma splitAtFirst_none:
  assumes "pat \<noteq> []" "\<not> sublist pat t"
  shows "splitAtFirst pat t = None"
  using assms(2)
proof (induction t)
  case Nil
  with assms(1) show ?case by simp
next
  case (Cons c cs)
  then show ?case by (auto simp: sublist_Cons_right)
qed

lemma not_sublist_suffix:
  "\<not> sublist pat (xs @ ys) \<Longrightarrow> \<not> sublist pat ys"
  by (meson sublist_append_leftI sublist_order.order.trans)

lemma not_sublist_prefix:
  "\<not> sublist pat (xs @ ys) \<Longrightarrow> \<not> sublist pat xs"
  by (metis append_Nil sublist_appendI sublist_order.order.trans)

lemma not_sublist_dropWhile:
  "\<not> sublist pat xs \<Longrightarrow> \<not> sublist pat (dropWhile P xs)"
  by (meson sublist_dropWhile sublist_order.order.trans)

subsection \<open>One block\<close>

lemma matchBlock_closed:
  assumes "\<not> sublist ''/**'' (pre @ ''/*'')" "\<not> sublist ''*/'' (body @ ''*'')"
  shows "matchBlock (pre @ ''/**'' @ body @ ''*/'' @ post) =
           (case splitAtFirst ''/**'' (dropWhile isSpace post) of
              None \<Rightarrow> Some (body, dropWhile isSpace post, [])
            | Some (code, _) \<Rightarrow> Some (body, code, drop (length code) (dropWhile isSpace post)))"
proof -
  have o: "splitAtFirst ''/**'' (pre @ ''/**'' @ body @ ''*/'' @ post)
             = Some (pre, body @ ''*/'' @ post)"
    using assms(1) by (intro splitAtFirst_first) simp_all
  have c: "splitAtFirst ''*/'' (body @ ''*/'' @ post) = Some (body, post)"
    using assms(2) by (intro splitAtFirst_first) simp_all
  show ?thesis
    by (simp only: matchBlock_def o c option.case prod.case Let_def)
qed

lemma matchBlock_unclosed:
  assumes "\<not> sublist ''/**'' (pre @ ''/*'')" "\<not> sublist ''*/'' tail"
  shows "matchBlock (pre @ ''/**'' @ tail) = None"
proof -
  have o: "splitAtFirst ''/**'' (pre @ ''/**'' @ tail) = Some (pre, tail)"
    using assms(1) by (intro splitAtFirst_first) simp_all
  have c: "splitAtFirst ''*/'' tail = None"
    using assms(2) by (intro splitAtFirst_none) simp_all
  show ?thesis by (simp only: matchBlock_def o c option.case prod.case)
qed

lemma matchBlock_no_open: "\<not> sublist ''/**'' t \<Longrightarrow> matchBlock t = None"
  by (simp add: matchBlock_def splitAtFirst_none)

lemma matchBlock_skip_prefix:
  assumes "\<not> sublist ''/**'' (pre @ ''/*'')"
  shows "matchBlock (pre @ ''/**'' @ rest) = matchBlock (''/**'' @ rest)"
proof -
  have a: "splitAtFirst ''/**'' (pre @ ''/**'' @ rest) = Some (pre, rest)"
    using assms by (intro splitAtFirst_first) simp_all
  have b: "splitAtFirst ''/**'' (''/**'' @ rest) = Some ([], rest)"
    by simp
  show ?thesis by (simp only: matchBlock_def a b option.case prod.case)
qed

lemma commentBlocks_None: "matchBlock t = None \<Longrightarrow> commentBlocks t = []"
  by (subst commentBlocks.simps) simp

lemma commentBlocks_Some:
  "matchBlock t = Some (comment, code, rest) \<Longrightarrow>
   commentBlocks t = (comment, code) # commentBlocks rest"
  by (subst commentBlocks.simps) simp

lemma commentBlocks_cong: "matchBlock t = matchBlock t' \<Longrightarrow> commentBlocks t = commentBlocks t'"
  by (subst commentBlocks.simps, subst (2) commentBlocks.simps) simp

lemma commentBlocks_Nil: "commentBlocks [] = []"
  by (rule commentBlocks_None) (simp add: matchBlock_def)

subsection \<open>Markers inside a comment\<close>

lemma matchMarker_none: "\<not> sublist marker t \<Longrightarrow> matchMarker marker t = None"
  by (induction t) (auto simp: sublist_Cons_right)

lemma matchMarker_first:
  assumes "marker \<noteq> []" "\<not> sublist marker (b1 @ butlast marker)" "markerAt after = Some g"
  shows "matchMarker marker (b1 @ marker @ after) = Some g"
  using assms(2)
proof (induction b1)
  case Nil
  with assms(1,3) show ?case by (cases marker) auto
next
  case (Cons c b1)
  from Cons.prems have np: "\<not> prefix marker ((c # b1) @ marker @ after)"
    using prefix_before_overlap [of marker "c # b1" after] by blast
  from Cons.prems have "\<not> sublist marker (b1 @ butlast marker)"
    by (auto simp: sublist_Cons_right)
  with Cons.IH have "matchMarker marker (b1 @ marker @ after) = Some g" by simp
  with np show ?case by simp
qed

lemma markerAt_line:
  assumes "sp \<noteq> []" "\<forall>c\<in>set sp. isSpace c" "t \<noteq> []" "\<not> isSpace (hd t)"
    and "\<forall>c\<in>set t. \<not> isLineTerminator c"
  shows "markerAt (sp @ t @ b2) = Some (t @ takeWhile (\<lambda>c. \<not> isLineTerminator c) b2)"
proof -
  obtain x xs where t: "t = x # xs" using assms(3) by (cases t) auto
  with assms(4,5) have x: "\<not> isSpace x" "\<not> isLineTerminator x" by auto
  have tw: "takeWhile isSpace (sp @ t @ b2) = sp"
    using assms(2) x(1) unfolding t by (simp add: takeWhile_append2)
  obtain n where n: "length sp = Suc n" using assms(1) by (cases sp) auto
  have r: "rev [1..<Suc (length sp)] = length sp # rev [1..<length sp]"
    unfolding n by simp
  have at: "(sp @ t @ b2) ! length sp = x" unfolding t by (simp add: nth_append)
  have lt: "length sp < length (sp @ t @ b2)" unfolding t by simp
  have "takeWhile (\<lambda>c. \<not> isLineTerminator c) (t @ b2)
          = t @ takeWhile (\<lambda>c. \<not> isLineTerminator c) b2"
    using assms(5) by (simp add: takeWhile_append2)
  then show ?thesis
    unfolding markerAt_def Let_def tw r using at lt x(2) by simp
qed

lemma trim_core:
  assumes "t \<noteq> []" "\<not> isSpace (hd t)" "\<not> isSpace (last t)" "\<forall>c\<in>set r. isSpace c"
  shows "trim (t @ r) = t"
proof -
  have a: "dropWhile isSpace (t @ r) = t @ r"
    using assms(1,2) by (cases t) auto
  have "dropWhile isSpace (rev r @ rev t) = dropWhile isSpace (rev t)"
    using assms(4) by (intro dropWhile_append2) auto
  also have "\<dots> = rev t"
    using assms(1,3) by (cases "rev t") (auto simp: last_rev [symmetric] simp del: last_rev)
  finally show ?thesis unfolding trim_def a by simp
qed

lemma extractDocumentation_file:
  "nodeAt s (fsKey (cwd e) testFilePath) = Some (File content) \<Longrightarrow>
   extractDocumentation e testFilePath s = Ok (extractSections content) s"
  by (simp add: extractDocumentation_def existsSync_def readFileSync_def bindO_def)

lemma extractSections_Cons:
  "matchBlock t = Some (comment, code, rest) \<Longrightarrow>
   extractSections t = (case sectionOf comment code of None \<Rightarrow> [] | Some sec \<Rightarrow> [sec])
                         @ extractSections rest"
  by (simp add: extractSections_def commentBlocks_Some List.map_filter_simps split: option.splits)

lemma extractSections_None: "matchBlock t = None \<Longrightarrow> extractSections t = []"
  by (simp add: extractSections_def commentBlocks_None List.map_filter_simps)

text \<open>
  C4: a text with exactly one comment block, closed, whose first title marker is followed on
  its line by the title \<open>t\<close> (for instance \<open>Foo\<close>) and which holds no chapter marker, yields
  exactly one section, with title \<open>t\<close> and chapter \<open>general\<close>.
\<close>

theorem extract_single_titled_block:
  assumes "nodeAt s (fsKey (cwd e) testFilePath) = Some (File content)"
    and "content = pre @ ''/**'' @ body @ ''*/'' @ post"
    and "\<not> sublist ''/**'' (pre @ ''/*'')"
    and "\<not> sublist ''*/'' (body @ ''*'')"
    and "\<not> sublist ''/**'' post"
    and "body = b1 @ ''@title'' @ sp @ t @ b2"
    and "\<not> sublist ''@title'' (b1 @ ''@titl'')"
    and "sp \<noteq> []" "\<forall>c\<in>set sp. isSpace c"
    and "t \<noteq> []" "\<not> isSpace (hd t)" "\<not> isSpace (last t)" "\<forall>c\<in>set t. \<not> isLineTerminator c"
    and "\<forall>c\<in>set (takeWhile (\<lambda>c. \<not> isLineTerminator c) b2). isSpace c"
    and "\<not> sublist ''@chapter'' body"
  shows "\<exists>sec. extractDocumentation e testFilePath s = Ok [sec] s
               \<and> sec_title sec = t \<and> sec_chapter sec = ''general''"
proof -
  let ?code = "dropWhile isSpace post"
  have "splitAtFirst ''/**'' ?code = None"
    using assms(5) by (intro splitAtFirst_none not_sublist_dropWhile) simp_all
  with matchBlock_closed [OF assms(3,4), of post]
  have mb: "matchBlock content = Some (body, ?code, [])"
    unfolding assms(2) by simp
  have "markerAt (sp @ t @ b2) = Some (t @ takeWhile (\<lambda>c. \<not> isLineTerminator c) b2)"
    using assms(8-11,13) by (intro markerAt_line)
  then have tm: "matchMarker ''@title'' body = Some (t @ takeWhile (\<lambda>c. \<not> isLineTerminator c) b2)"
    unfolding assms(6) using assms(7) by (intro matchMarker_first) simp_all
  have tt: "trim (t @ takeWhile (\<lambda>c. \<not> isLineTerminator c) b2) = t"
    using assms(10-12,14) by (intro trim_core)
  have cm: "matchMarker ''@chapter'' body = None"
    using assms(15) by (rule matchMarker_none)
  let ?sec = "\<lparr>sec_title = t, sec_content = trim (stripMarkers body),
                sec_code = codeSample ?code, sec_chapter = ''general''\<rparr>"
  have so: "sectionOf body ?code = Some ?sec"
    by (simp add: sectionOf_def tm tt cm)
  have "matchBlock [] = None" by (simp add: matchBlock_def)
  then have "extractSections [] = []" by (rule extractSections_None)
  with extractSections_Cons [OF mb] so have "extractSections content = [?sec]" by simp
  with extractDocumentation_file [OF assms(1)]
  have "extractDocumentation e testFilePath s = Ok [?sec] s" by simp
  then show ?thesis by (intro exI [of _ ?sec]) simp
qed

theorem extract_single_titled_block_witness:
  "nodeAt demoDocFs (fsKey (cwd demoEnv) ''/r/t.ts'') = Some (File ''/** @title Foo */'')
   \<and> \<not> sublist ''@chapter'' '' @title Foo ''
   \<and> (\<exists>sec. extractDocumentation demoEnv ''/r/t.ts'' demoDocFs = Ok [sec] demoDocFs
              \<and> sec_title sec = ''Foo'' \<and> sec_chapter sec = ''general'')"
proof -
  have h1: "nodeAt demoDocFs (fsKey (cwd demoEnv) ''/r/t.ts'') = Some (File ''/** @title Foo */'')"
    by (simp add: nodeAt_def demoDocFs_def demoEnv_def fsKey_def isAbsolute_def normStep_def)
  have h2: "''/** @title Foo */'' = [] @ ''/**'' @ '' @title Foo '' @ ''*/'' @ []" by simp
  have h3: "\<not> sublist ''/**'' ([] @ ''/*'')" by code_simp
  have h4: "\<not> sublist ''*/'' ('' @title Foo '' @ ''*'')" by code_simp
  have h5: "\<not> sublist ''/**'' []" by simp
  have h6: "'' @title Foo '' = '' '' @ ''@title'' @ '' '' @ ''Foo'' @ '' ''" by simp
  have h7: "\<not> sublist ''@title'' ('' '' @ ''@titl'')" by code_simp
  have h8: "'' '' \<noteq> []" "\<forall>c\<in>set '' ''. isSpace c" by (simp_all add: isSpace_def)
  have h9: "''Foo'' \<noteq> []" "\<not> isSpace (hd ''Foo'')" "\<not> isSpace (last ''Foo'')"
    "\<forall>c\<in>set ''Foo''. \<not> isLineTerminator c"
    by (simp_all add: isSpace_def isLineTerminator_def)
  have h10: "\<forall>c\<in>set (takeWhile (\<lambda>c. \<not> isLineTerminator c) '' ''). isSpace c"
    by (simp add: isSpace_def isLineTerminator_def)
  have h11: "\<not> sublist ''@chapter'' '' @title Foo ''" by code_simp
  from extract_single_titled_block [OF h1 h2 h3 h4 h5 h6 h7 h8 h9 h10 h11]
  have "\<exists>sec. extractDocumentation demoEnv ''/r/t.ts'' demoDocFs = Ok [sec] demoDocFs
              \<and> sec_title sec = ''Foo'' \<and> sec_chapter sec = ''general''" .
  with h1 h11 show ?thesis by (intro conjI)
qed

text \<open>
  C5: a closed comment block in which the title pattern finds no match yields no section,
  whatever else it holds. Put in front of a text that is empty or starts with an opening
  marker, the block and the text that trails it leave the extracted sequence as it was;
  and in general the sequence has one section per matched block with a title.
\<close>

theorem titleless_block_contributes_nothing:
  assumes "\<not> sublist ''/**'' (pre @ ''/*'')"
    and "\<not> sublist ''*/'' (body @ ''*'')"
    and "matchMarker ''@title'' body = None"
    and "\<not> sublist ''/**'' (trailing @ ''/*'')"
    and "rest = [] \<or> prefix ''/**'' rest"
  shows "extractSections (pre @ ''/**'' @ body @ ''*/'' @ trailing @ rest) = extractSections (pre @ rest)
         \<and> length (extractSections (pre @ ''/**'' @ body @ ''*/'' @ trailing @ rest))
             = length (filter (\<lambda>(comment, following). matchMarker ''@title'' comment \<noteq> None)
                         (commentBlocks (pre @ rest)))"
proof -
  let ?T = "dropWhile isSpace trailing"
  have none: "sectionOf body code = None" for code
    by (simp add: sectionOf_def assms(3))
  have dw: "dropWhile isSpace (trailing @ rest) = ?T @ rest"
  proof (cases "\<forall>c\<in>set trailing. isSpace c")
    case True
    then have "?T = []" by simp
    moreover have "dropWhile isSpace rest = rest"
      using assms(5) by (cases rest) (auto simp: isSpace_def)
    ultimately show ?thesis using True by (simp add: dropWhile_append)
  next
    case False
    then show ?thesis by (auto simp: dropWhile_append)
  qed
  have nT: "\<not> sublist ''/**'' (?T @ ''/*'')"
  proof
    assume "sublist ''/**'' (?T @ ''/*'')"
    moreover have "sublist (?T @ ''/*'') (trailing @ ''/*'')"
      by (metis sublist_append_leftI takeWhile_dropWhile_id append.assoc)
    ultimately show False using assms(4) sublist_order.order.trans by blast
  qed
  have "length (List.map_filter (\<lambda>(comment, following). sectionOf comment following) bs)
      = length (filter (\<lambda>(comment, following). matchMarker ''@title'' comment \<noteq> None) bs)"
    for bs
    by (induction bs) (auto simp: List.map_filter_simps sectionOf_def split: option.splits)
  then have len: "length (extractSections u)
      = length (filter (\<lambda>(comment, following). matchMarker ''@title'' comment \<noteq> None) (commentBlocks u))"
    for u
    unfolding extractSections_def by blast
  have eq: "extractSections (pre @ ''/**'' @ body @ ''*/'' @ trailing @ rest) = extractSections (pre @ rest)"
  proof (cases "rest = []")
    case True
    have "\<not> sublist ''/**'' ?T" using nT by (rule not_sublist_prefix)
    then have "splitAtFirst ''/**'' ?T = None" by (intro splitAtFirst_none) simp_all
    with matchBlock_closed [OF assms(1,2), of "trailing @ rest"] dw True
    have "matchBlock (pre @ ''/**'' @ body @ ''*/'' @ trailing @ rest) = Some (body, ?T, [])"
      by simp
    from extractSections_Cons [OF this]
    have l: "extractSections (pre @ ''/**'' @ body @ ''*/'' @ trailing @ rest) = extractSections []"
      by (simp add: none)
    have "\<not> sublist ''/**'' pre" using assms(1) by (rule not_sublist_prefix)
    then have "extractSections pre = []"
      by (intro extractSections_None matchBlock_no_open)
    moreover have "extractSections [] = []"
      by (intro extractSections_None matchBlock_no_open) simp
    ultimately show ?thesis using l True by simp
  next
    case False
    with assms(5) obtain rest' where r: "rest = ''/**'' @ rest'" by (auto simp: prefix_def)
    have "splitAtFirst ''/**'' (?T @ ''/**'' @ rest') = Some (?T, rest')"
      using nT by (intro splitAtFirst_first) simp_all
    with matchBlock_closed [OF assms(1,2), of "trailing @ rest"] dw r
    have "matchBlock (pre @ ''/**'' @ body @ ''*/'' @ trailing @ rest) = Some (body, ?T, rest)"
      by simp
    from extractSections_Cons [OF this]
    have l: "extractSections (pre @ ''/**'' @ body @ ''*/'' @ trailing @ rest) = extractSections rest"
      by (simp add: none)
    have "matchBlock (pre @ rest) = matchBlock rest"
      unfolding r using assms(1) by (rule matchBlock_skip_prefix)
    then have "commentBlocks (pre @ rest) = commentBlocks rest"
      by (rule commentBlocks_cong)
    then have "extractSections (pre @ rest) = extractSections rest"
      unfolding extractSections_def by simp
    with l show ?thesis by simp
  qed
  from eq len [of "pre @ rest"] show ?thesis by simp
qed

theorem titleless_block_contributes_nothing_witness:
  "matchMarker ''@title'' '' @chapter basics '' = None
   \<and> extractSections ''/** @chapter basics */ code /** @title Foo */''
       = extractSections ''/** @title Foo */''
   \<and> length (extractSections ''/** @chapter basics */ code /** @title Foo */'') = 1"
proof -
  have h1: "\<not> sublist ''/**'' ([] @ ''/*'')" by code_simp
  have h2: "\<not> sublist ''*/'' ('' @chapter basics '' @ ''*'')" by code_simp
  have h3: "matchMarker ''@title'' '' @chapter basics '' = None" by code_simp
  have h4: "\<not> sublist ''/**'' ('' code '' @ ''/*'')" by code_simp
  have h5: "''/** @title Foo */'' = [] \<or> prefix ''/**'' ''/** @title Foo */''" by simp
  have bs: "commentBlocks ''/** @title Foo */'' = [('' @title Foo '', [])]" by code_simp
  have t: "(matchMarker ''@title'' '' @title Foo '' \<noteq> None) = True" by code_simp
  have f: "filter (\<lambda>(comment, following). matchMarker ''@title'' comment \<noteq> None)
             (commentBlocks ([] @ ''/** @title Foo */'')) = [('' @title Foo '', [])]"
    by (simp only: append_Nil bs filter.simps prod.case t if_True)
  note w = titleless_block_contributes_nothing [OF h1 h2 h3 h4 h5]
  from w [THEN conjunct1]
  have a: "extractSections ''/** @chapter basics */ code /** @title Foo */''
          = extractSections ''/** @title Foo */''" by simp
  from w [THEN conjunct2]
  have "length (extractSections ([] @ ''/**'' @ '' @chapter basics '' @ ''*/'' @ '' code ''
                  @ ''/** @title Foo */'')) = 1"
    unfolding f by simp
  then have b: "length (extractSections ''/** @chapter basics */ code /** @title Foo */'') = 1"
    by simp
  from h3 a b show ?thesis by (intro conjI)
qed

text \<open>
  C6 as stated fails: an opening marker that is never closed is not processed as a block
  that runs to the end of the text. The unclosed block with the title \<open>Foo\<close> yields
  nothing, while the same block closed at the end of the text yields its section.
\<close>

theorem unclosed_block_is_dropped:
  "extractSections ''/** @title Foo'' = []
   \<and> extractSections ''/** @title Foo*/''
       = [\<lparr>sec_title = ''Foo'', sec_content = [], sec_code = None, sec_chapter = ''general''\<rparr>]"
  by code_simp

text \<open>
  C6 (as amended): extraction from a readable file never fails, whatever the text. An
  opening marker with no closing marker anywhere after it matches nothing, so nothing is
  extracted from it on; an opening marker whose closing marker is missing runs to the first
  closing marker that follows, taking a later opening marker into its comment.
\<close>

theorem unclosed_block_runs_to_next_close_or_is_dropped:
  assumes "\<not> sublist ''/**'' (pre @ ''/*'')"
  shows "(nodeAt s (fsKey (cwd e) testFilePath) = Some (File content)
            \<longrightarrow> extractDocumentation e testFilePath s = Ok (extractSections content) s)
       \<and> (\<not> sublist ''*/'' tail \<longrightarrow> extractSections (pre @ ''/**'' @ tail) = [])
       \<and> (\<not> sublist ''*/'' (b1 @ ''/**'' @ b2 @ ''*'')
            \<longrightarrow> (\<exists>code rest. matchBlock (pre @ ''/**'' @ b1 @ ''/**'' @ b2 @ ''*/'' @ post)
                                = Some (b1 @ ''/**'' @ b2, code, rest)))"
proof (intro conjI impI)
  assume "nodeAt s (fsKey (cwd e) testFilePath) = Some (File content)"
  then show "extractDocumentation e testFilePath s = Ok (extractSections content) s"
    by (rule extractDocumentation_file)
next
  assume "\<not> sublist ''*/'' tail"
  with assms have "matchBlock (pre @ ''/**'' @ tail) = None" by (rule matchBlock_unclosed)
  then show "extractSections (pre @ ''/**'' @ tail) = []" by (rule extractSections_None)
next
  assume "\<not> sublist ''*/'' (b1 @ ''/**'' @ b2 @ ''*'')"
  then have "\<not> sublist ''*/'' ((b1 @ ''/**'' @ b2) @ ''*'')" by simp
  from matchBlock_closed [OF assms this, of post]
  show "\<exists>code rest. matchBlock (pre @ ''/**'' @ b1 @ ''/**'' @ b2 @ ''*/'' @ post)
                        = Some (b1 @ ''/**'' @ b2, code, rest)"
    by (auto split: option.splits)
qed

theorem unclosed_block_runs_to_next_close_or_is_dropped_witness:
  "extractDocumentation demoEnv ''/r/t.ts'' demoDocFs
     = Ok (extractSections ''/** @title Foo */'') demoDocFs
   \<and> extractSections ''/** @title Foo'' = []
   \<and> (\<exists>code rest. matchBlock ''/** @title A /** @title B */ x''
                       = Some ('' @title A /** @title B '', code, rest))"
proof -
  have h0: "\<not> sublist ''/**'' ([] @ ''/*'')" by code_simp
  have h1: "nodeAt demoDocFs (fsKey (cwd demoEnv) ''/r/t.ts'') = Some (File ''/** @title Foo */'')"
    by (simp add: nodeAt_def demoDocFs_def demoEnv_def fsKey_def isAbsolute_def normStep_def)
  have h2: "\<not> sublist ''*/'' '' @title Foo''" by code_simp
  have h3: "\<not> sublist ''*/'' ('' @title A '' @ ''/**'' @ '' @title B '' @ ''*'')" by code_simp
  note w = unclosed_block_runs_to_next_close_or_is_dropped [OF h0,
      of demoDocFs demoEnv "''/r/t.ts''" "''/** @title Foo */''" "'' @title Foo''"
         "'' @title A ''" "'' @title B ''" "'' x''"]
  from w h1 have a: "extractDocumentation demoEnv ''/r/t.ts'' demoDocFs
     = Ok (extractSections ''/** @title Foo */'') demoDocFs" by blast
  from w h2 have b: "extractSections ''/** @title Foo'' = []" by simp
  from w h3 have c: "\<exists>code rest. matchBlock ''/** @title A /** @title B */ x''
                       = Some ('' @title A /** @title B '', code, rest)" by simp
  from a b c show ?thesis by (intro conjI)
qed

lemma confined_refl: "confined K s s"
  by (simp add: confined_def)

lemma confined_trans:
  assumes "confined K s s'" "confined K s' s''"
  shows "confined K s s''"
  unfolding confined_def
proof (intro allI impI)
  fix k assume nk: "\<not> prefix K k"
  note a = assms(1) [unfolded confined_def, rule_format, OF nk]
  note b = assms(2) [unfolded confined_def, rule_format, OF nk]
  from a b show "nodeAt s'' k = nodeAt s k
      \<or> (nodeAt s k = None \<and> nodeAt s'' k = Some Dir \<and> strict_prefix k K)"
    by auto
qed

lemma confined_mono:
  assumes "confined K' s s'" "prefix K K'"
  shows "confined K s s'"
  unfolding confined_def
proof (intro allI impI)
  fix k assume nk: "\<not> prefix K k"
  have nk': "\<not> prefix K' k"
  proof
    assume "prefix K' k"
    with assms(2) have "prefix K k" by (rule prefix_order.trans)
    with nk show False by simp
  qed
  note c = assms(1) [unfolded confined_def, rule_format, OF nk']
  then consider "nodeAt s' k = nodeAt s k"
    | "nodeAt s k = None" "nodeAt s' k = Some Dir" "strict_prefix k K'"
    by (elim disjE conjE)
  then show "nodeAt s' k = nodeAt s k
          \<or> (nodeAt s k = None \<and> nodeAt s' k = Some Dir \<and> strict_prefix k K)"
  proof cases
    case 1
    then show ?thesis by simp
  next
    case 2
    from 2(3) have "prefix k K'" by (simp add: strict_prefix_def)
    from prefix_same_cases [OF this assms(2)] have "prefix k K \<or> prefix K k" .
    with nk have "strict_prefix k K" by (auto simp: strict_prefix_def)
    with 2 show ?thesis by simp
  qed
qed

lemma dirsAdded_confined:
  assumes "dirsAdded K s s'"
  shows "confined K s s'"
  unfolding confined_def
proof (intro allI impI)
  fix k assume nk: "\<not> prefix K k"
  note a = assms [unfolded dirsAdded_def, rule_format, of k]
  with nk show "nodeAt s' k = nodeAt s k
      \<or> (nodeAt s k = None \<and> nodeAt s' k = Some Dir \<and> strict_prefix k K)"
    by (auto simp: strict_prefix_def)
qed

lemma dirsAdded_refl: "dirsAdded K s s"
  by (simp add: dirsAdded_def)

lemma dirsAdded_trans:
  assumes "dirsAdded K s s'" "dirsAdded K s' s''"
  shows "dirsAdded K s s''"
  unfolding dirsAdded_def
proof
  fix k
  note a = assms(1) [unfolded dirsAdded_def, rule_format, of k]
  note b = assms(2) [unfolded dirsAdded_def, rule_format, of k]
  from a b show "nodeAt s'' k = nodeAt s k
      \<or> (nodeAt s k = None \<and> nodeAt s'' k = Some Dir \<and> prefix k K)"
    by auto
qed

lemma fsKey_simple: "list_all simpleName (fsKey wd p)"
  unfolding fsKey_def by (intro foldl_normStep_False_simple) (auto dest: splitOn_free)

lemma set_update_subset: "set (AList.update k v s) \<subseteq> insert (k, v) (set s)"
  by (induction s) auto

lemma wfFs_update: "wfFs s \<Longrightarrow> list_all simpleName k \<Longrightarrow> wfFs (AList.update k v s)"
  unfolding wfFs_def using set_update_subset [of k v s] by auto

lemma update_confined: "k \<noteq> [] \<Longrightarrow> confined k s (AList.update k v s)"
  by (simp add: confined_def nodeAt_update)

subsection \<open>The single operations are confined\<close>

lemma writeFileSync_confined:
  "confined (fsKey (cwd e) p) s (finalFs (writeFileSync e p c s))"
  using writeFileSync_final [where e = e and p = p and c = c and s = s, OF refl]
  by (auto simp: confined_refl update_confined)

lemma writeFileSync_wf: "wfFs s \<Longrightarrow> wfFs (finalFs (writeFileSync e p c s))"
  using writeFileSync_final [where e = e and p = p and c = c and s = s, OF refl]
  by (auto simp: wfFs_update fsKey_simple)

lemma copyFileSync_confined:
  "confined (fsKey (cwd e) dest) s (finalFs (copyFileSync e src dest s))"
  unfolding copyFileSync_def bindO_def
  using writeFileSync_confined [where e = e and p = dest and s = s]
  by (auto simp: readFileSync_def confined_refl split: option.splits node.splits)

lemma copyFileSync_wf: "wfFs s \<Longrightarrow> wfFs (finalFs (copyFileSync e src dest s))"
  unfolding copyFileSync_def bindO_def
  using writeFileSync_wf [where e = e and p = dest and s = s]
  by (auto simp: readFileSync_def split: option.splits node.splits)

lemma mkdirFrom_dirsAdded:
  "dirsAdded (pre @ segs) s (finalFs (mkdirFrom pre segs s))"
proof (induction segs arbitrary: pre s)
  case Nil
  then show ?case by (simp add: dirsAdded_refl)
next
  case (Cons seg segs)
  let ?q = "pre @ [seg]"
  have q: "?q \<noteq> []" by simp
  show ?case
  proof (cases "nodeAt s ?q")
    case None
    have a: "dirsAdded (pre @ seg # segs) s (AList.update ?q Dir s)"
      unfolding dirsAdded_def using None q by (auto simp: nodeAt_update)
    from Cons.IH [of ?q "AList.update ?q Dir s"]
    have "dirsAdded (pre @ seg # segs) (AList.update ?q Dir s)
            (finalFs (mkdirFrom ?q segs (AList.update ?q Dir s)))" by simp
    with a None show ?thesis by (auto intro: dirsAdded_trans)
  next
    case (Some n)
    show ?thesis
    proof (cases n)
      case (File x)
      with Some show ?thesis by (simp add: dirsAdded_refl)
    next
      case Dir
      from Cons.IH [of ?q s] Some Dir show ?thesis by simp
    qed
  qed
qed

lemma mkdirSync_dirsAdded: "dirsAdded (fsKey (cwd e) p) s (finalFs (mkdirSync e p s))"
  unfolding mkdirSync_def using mkdirFrom_dirsAdded [of "[]"] by simp

lemma mkdirFrom_wf:
  "wfFs s \<Longrightarrow> list_all simpleName (pre @ segs) \<Longrightarrow> wfFs (finalFs (mkdirFrom pre segs s))"
proof (induction segs arbitrary: pre s)
  case Nil
  then show ?case by simp
next
  case (Cons seg segs)
  from Cons.prems(2) have q: "list_all simpleName (pre @ [seg])" by simp
  from Cons.prems(2) have r: "list_all simpleName ((pre @ [seg]) @ segs)" by simp
  show ?case
  proof (cases "nodeAt s (pre @ [seg])")
    case None
    with Cons.IH [OF wfFs_update [OF Cons.prems(1) q] r] show ?thesis by simp
  next
    case (Some n)
    with Cons.IH [OF Cons.prems(1) r] Cons.prems(1) show ?thesis by (cases n) auto
  qed
qed

lemma mkdirSync_wf: "wfFs s \<Longrightarrow> wfFs (finalFs (mkdirSync e p s))"
  unfolding mkdirSync_def using mkdirFrom_wf [of s "[]"] by (simp add: fsKey_simple)

lemma mkdirFrom_Ok_dir:
  "mkdirFrom pre segs s = Ok u s' \<Longrightarrow> segs \<noteq> [] \<Longrightarrow> nodeAt s' (pre @ segs) = Some Dir"
proof (induction segs arbitrary: pre s)
  case Nil
  then show ?case by simp
next
  case (Cons seg segs)
  let ?q = "pre @ [seg]"
  show ?case
  proof (cases segs)
    case Nil
    with Cons.prems show ?thesis
      by (auto simp: nodeAt_update split: option.splits node.splits)
  next
    case (Cons a as)
    with Cons.prems Cons.IH [of ?q] show ?thesis
      by (auto split: option.splits node.splits)
  qed
qed

lemma good_bindO:
  assumes "good K s m"
    and "\<And>a s1. m = Ok a s1 \<Longrightarrow> wfFs s1 \<Longrightarrow> good K s1 (f a s1)"
  shows "good K s (bindO m f)"
proof (cases m)
  case (Ok a s1)
  with assms(1) have w: "wfFs s1" and c: "confined K s s1" by (simp_all add: good_def)
  from assms(2) [OF Ok w] have "wfFs (finalFs (f a s1))" "confined K s1 (finalFs (f a s1))"
    by (simp_all add: good_def)
  with c Ok show ?thesis by (auto simp: good_def bindO_def intro: confined_trans)
next
  case (Fail err s1)
  with assms(1) show ?thesis by (simp add: good_def bindO_def)
qed

lemma good_mono: "good K' s r \<Longrightarrow> prefix K K' \<Longrightarrow> good K s r"
  by (auto simp: good_def intro: confined_mono)

lemma good_Ok: "wfFs s \<Longrightarrow> good K s (Ok a s)"
  by (simp add: good_def confined_refl)

lemma good_Fail: "wfFs s \<Longrightarrow> good K s (Fail err s)"
  by (simp add: good_def confined_refl)

lemma good_writeFileSync: "wfFs s \<Longrightarrow> good (fsKey (cwd e) p) s (writeFileSync e p c s)"
  by (simp add: good_def writeFileSync_wf writeFileSync_confined)

lemma good_copyFileSync: "wfFs s \<Longrightarrow> good (fsKey (cwd e) dest) s (copyFileSync e src dest s)"
  by (simp add: good_def copyFileSync_wf copyFileSync_confined)

lemma good_mkdirSync: "wfFs s \<Longrightarrow> good (fsKey (cwd e) p) s (mkdirSync e p s)"
  by (simp add: good_def mkdirSync_wf mkdirSync_dirsAdded dirsAdded_confined)

lemma good_readFileSync: "wfFs s \<Longrightarrow> good K s (readFileSync e p s)"
  by (simp add: good_def readFileSync_final confined_refl)

lemma childNames_simple:
  assumes "wfFs s" "n \<in> set (childNames s k)"
  shows "simpleName n"
proof -
  from assms(2) obtain q v where "(q, v) \<in> set s" "q \<noteq> []" "n = last q"
    by (auto simp: childNames_def)
  moreover from this assms(1) have "list_all simpleName q" by (auto simp: wfFs_def)
  ultimately show ?thesis by (auto simp: list_all_iff)
qed

lemma readdirSync_Ok:
  assumes "readdirSync e p s = Ok entries s1"
  shows "s1 = s"
    and "nodeAt s (fsKey (cwd e) p) = Some Dir"
    and "entries = map (\<lambda>n. (n, nodeAt s (fsKey (cwd e) p @ [n]) = Some Dir))
                     (childNames s (fsKey (cwd e) p))"
  using assms by (auto simp: readdirSync_def Let_def split: option.splits node.splits)

lemma readdirSync_final: "finalFs (readdirSync e p s) = s"
  by (auto simp: readdirSync_def Let_def split: option.splits node.splits)

lemma good_readdirSync: "wfFs s \<Longrightarrow> good K s (readdirSync e p s)"
  by (simp add: good_def readdirSync_final confined_refl)

lemma readdirSync_names_simple:
  assumes "readdirSync e p s = Ok entries s1" "wfFs s" "(nm, d) \<in> set entries"
  shows "simpleName nm"
  using readdirSync_Ok(3) [OF assms(1)] assms(2,3) childNames_simple by auto

lemma good_copyEntries:
  assumes P: "\<And>src dest s. dest \<noteq> [] \<Longrightarrow> wfFs s \<Longrightarrow>
                good (fsKey (cwd e) dest) s (copyDirectory e fuel src dest s)"
    and "dest \<noteq> []" "wfFs s" "\<forall>(nm, d) \<in> set entries. simpleName nm"
  shows "good (fsKey (cwd e) dest) s (copyEntries e fuel src dest entries s)"
  using assms(3,4)
proof (induction entries arbitrary: s)
  case Nil
  then show ?case by (simp add: good_Ok)
next
  case (Cons entry entries)
  obtain nm isDirectory where entry: "entry = (nm, isDirectory)" by (cases entry)
  with Cons.prems(2) have sn: "simpleName nm" by simp
  have key: "fsKey (cwd e) (path_join [dest, nm]) = fsKey (cwd e) dest @ [nm]"
    using assms(2) sn by (rule joined_key)
  have step: "good (fsKey (cwd e) dest) s
      (let srcPath = path_join [src, nm]; destPath = path_join [dest, nm] in
       if isDirectory then copyDirectory e fuel srcPath destPath s
       else copyFileSync e srcPath destPath s)"
  proof (cases isDirectory)
    case True
    have "good (fsKey (cwd e) (path_join [dest, nm])) s
            (copyDirectory e fuel (path_join [src, nm]) (path_join [dest, nm]) s)"
      using Cons.prems(1) by (intro P path_join_nonempty)
    then show ?thesis using True unfolding key Let_def by (auto intro: good_mono)
  next
    case False
    have "good (fsKey (cwd e) (path_join [dest, nm])) s
            (copyFileSync e (path_join [src, nm]) (path_join [dest, nm]) s)"
      using Cons.prems(1) by (rule good_copyFileSync)
    then show ?thesis using False unfolding key Let_def by (auto intro: good_mono)
  qed
  show ?case
    unfolding entry copyEntries.simps
  proof (rule good_bindO [OF step])
    fix a s1 assume "wfFs s1"
    with Cons.IH Cons.prems(2)
    show "good (fsKey (cwd e) dest) s1 (copyEntries e fuel src dest entries s1)" by simp
  qed
qed

lemma good_copyDirectory:
  "dest \<noteq> [] \<Longrightarrow> wfFs s \<Longrightarrow> good (fsKey (cwd e) dest) s (copyDirectory e fuel src dest s)"
proof (induction fuel arbitrary: src dest s)
  case 0
  then show ?case by (simp add: good_Fail)
next
  case (Suc fuel)
  have mk: "good (fsKey (cwd e) dest) s
              (if \<not> existsSync e dest s then mkdirSync e dest s else Ok () s)"
    using Suc.prems(2) by (simp add: good_mkdirSync good_Ok)
  show ?case
    unfolding copyDirectory.simps
  proof (rule good_bindO [OF mk])
    fix a s1 assume w1: "wfFs s1"
    show "good (fsKey (cwd e) dest) s1
            (bindO (readdirSync e src s1) (copyEntries e fuel src dest))"
    proof (rule good_bindO [OF good_readdirSync [OF w1]])
      fix entries s2
      assume r: "readdirSync e src s1 = Ok entries s2" and w2: "wfFs s2"
      have "\<forall>(nm, d) \<in> set entries. simpleName nm"
        using readdirSync_names_simple [OF r w1] by auto
      with Suc.IH Suc.prems(1) w2
      show "good (fsKey (cwd e) dest) s2 (copyEntries e fuel src dest entries s2)"
        by (intro good_copyEntries) auto
    qed
  qed
qed

subsection \<open>Creating an example is confined to its directory\<close>

lemma registry_config:
  assumes "getProp EXAMPLES k = Own config"
  shows "name config = k" "simpleName (contractFile config)" "simpleName (testFile config)"
    "simpleName (''example-'' @ name config)"
  using EXAMPLES_names_simple getProp_Own_mem [OF assms] by (auto simp: list_all_iff)

lemma good_copyIfExists:
  "wfFs s \<Longrightarrow> good (fsKey (cwd e) dest) s (copyIfExists e src dest s)"
  by (simp add: copyIfExists_def good_copyFileSync good_Ok)

lemma good_generateReadme:
  assumes "wfFs s"
  shows "good (fsKey (cwd e) destPath) s (generateReadme e config destPath s)"
  unfolding generateReadme_def Let_def
  by (rule good_bindO [OF good_readFileSync [OF assms]]) (rule good_writeFileSync)

lemma good_updatePackageJson:
  assumes "wfFs s"
  shows "good (fsKey (cwd e) (path_join [destPath, ''package.json''])) s
           (updatePackageJson e config destPath s)"
  unfolding updatePackageJson_def Let_def
proof (rule good_bindO [OF good_readFileSync [OF assms]])
  fix a s1 assume "wfFs s1"
  then show "good (fsKey (cwd e) (path_join [destPath, ''package.json''])) s1
     (case parseJSON e a of
        None \<Rightarrow> Fail SyntaxError s1
      | Some packageJson \<Rightarrow>
          (case updateManifest config packageJson of
             None \<Rightarrow> Fail TypeError s1
           | Some packageJson' \<Rightarrow>
               writeFileSync e (path_join [destPath, ''package.json''])
                 (stringifyJSON e packageJson') s1))"
    by (auto simp: good_Fail good_writeFileSync split: option.splits)
qed

lemma example_keys:
  assumes "getProp EXAMPLES k = Own config" "p \<noteq> []"
  shows "fsKey (cwd e) (path_join [p, ''contracts'', contractFile config])
           = fsKey (cwd e) p @ [''contracts'', contractFile config]"
    and "fsKey (cwd e) (path_join [p, ''test'', testFile config])
           = fsKey (cwd e) p @ [''test'', testFile config]"
    and "fsKey (cwd e) (path_join [p, ''README.md'']) = fsKey (cwd e) p @ [''README.md'']"
    and "fsKey (cwd e) (path_join [p, ''package.json'']) = fsKey (cwd e) p @ [''package.json'']"
proof -
  note r = registry_config [OF assms(1)]
  have c: "simpleName ''contracts''" and t: "simpleName ''test''"
    and rd: "simpleName ''README.md''" and pj: "simpleName ''package.json''"
    by (simp_all add: simpleName_def)
  show "fsKey (cwd e) (path_join [p, ''contracts'', contractFile config])
           = fsKey (cwd e) p @ [''contracts'', contractFile config]"
    using assms(2) c r(2) by (intro fsKey_path_join) simp_all
  show "fsKey (cwd e) (path_join [p, ''test'', testFile config])
           = fsKey (cwd e) p @ [''test'', testFile config]"
    using assms(2) t r(3) by (intro fsKey_path_join) simp_all
  show "fsKey (cwd e) (path_join [p, ''README.md'']) = fsKey (cwd e) p @ [''README.md'']"
    using assms(2) rd by (rule joined_key)
  show "fsKey (cwd e) (path_join [p, ''package.json'']) = fsKey (cwd e) p @ [''package.json'']"
    using assms(2) pj by (rule joined_key)
qed

lemma exampleDirOf_nonempty: "exampleDirOf e outputDir config \<noteq> []"
  unfolding exampleDirOf_def by (rule path_join_nonempty)

lemma good_createExample:
  assumes own: "getProp EXAMPLES exampleName = Own config" and wf: "wfFs s"
  shows "good (fsKey (cwd e) (exampleDirOf e outputDir config)) s
           (createExample e fuel exampleName outputDir s)"
proof -
  let ?p = "exampleDirOf e outputDir config"
  let ?K = "fsKey (cwd e) ?p"
  note pne = exampleDirOf_nonempty [of e outputDir config]
  note keys = example_keys [OF own pne, of e]
  have c0: "good ?K s (copyDirectory e fuel (templateDirOf e) ?p s)"
    using pne wf by (rule good_copyDirectory)
  have c1: "good ?K s1 (copyIfExists e src (path_join [?p, ''contracts'', contractFile config]) s1)"
    if "wfFs s1" for s1 src
    using good_copyIfExists [OF that, of e "path_join [?p, ''contracts'', contractFile config]" src]
    unfolding keys by (rule good_mono) simp
  have c2: "good ?K s1 (copyIfExists e src (path_join [?p, ''test'', testFile config]) s1)"
    if "wfFs s1" for s1 src
    using good_copyIfExists [OF that, of e "path_join [?p, ''test'', testFile config]" src]
    unfolding keys by (rule good_mono) simp
  have c3: "good ?K s1 (generateReadme e config (path_join [?p, ''README.md'']) s1)"
    if "wfFs s1" for s1
    using good_generateReadme [OF that, of e "path_join [?p, ''README.md'']" config]
    unfolding keys by (rule good_mono) simp
  have c4: "good ?K s1 (updatePackageJson e config ?p s1)" if "wfFs s1" for s1
    using good_updatePackageJson [OF that, of e ?p config]
    unfolding keys by (rule good_mono) simp
  show ?thesis
    unfolding createExample_def own jsprop.case Let_def
      exampleDirOf_def [symmetric] templateDirOf_def [symmetric]
    by (intro good_bindO [OF c0] good_bindO [OF c1] good_bindO [OF c2] good_bindO [OF c3]
        good_bindO [OF c4] good_Ok)
qed

lemma createExample_Ok_Own:
  assumes "createExample e fuel exampleName outputDir s = Ok p s'"
  shows "\<exists>config. getProp EXAMPLES exampleName = Own config"
proof (cases "getProp EXAMPLES exampleName")
  case (Own config)
  then show ?thesis by simp
next
  case (Inherited nm)
  with assms show ?thesis
    by (auto simp: createExample_def Let_def bindO_def split: outcome.splits)
next
  case Undefined
  with assms show ?thesis by (simp add: createExample_def)
qed

lemma createExample_Ok_dir:
  assumes own: "getProp EXAMPLES exampleName = Own config"
    and run: "createExample e fuel exampleName outputDir s = Ok p s'"
  shows "nodeAt s' (fsKey (cwd e) p) = Some Dir"
proof -
  from createExample_Own_steps [OF assms] obtain s3 s4 where
    p: "p = exampleDirOf e outputDir config"
    and g: "generateReadme e config (path_join [p, ''README.md'']) s3 = Ok () s4"
    and u: "updatePackageJson e config p s4 = Ok () s'"
    by blast
  have pne: "p \<noteq> []" unfolding p by (rule exampleDirOf_nonempty)
  note keys = example_keys [OF own pne, of e]
  from g obtain template s3' where
    w: "writeFileSync e (path_join [p, ''README.md'']) (renderReadme config template) s3' = Ok () s4"
    and r: "readFileSync e (path_join [dirname e, ''../templates/hardhat-base/README.template.md'']) s3
              = Ok template s3'"
    unfolding generateReadme_def Let_def bindO_Ok by blast
  from readFileSync_Ok [OF r] have s3': "s3' = s3" by simp
  from writeFileSync_Ok [OF w] have s4: "s4 = AList.update (fsKey (cwd e) p @ [''README.md''])
        (File (renderReadme config template)) s3"
    and d: "nodeAt s3 (fsKey (cwd e) p) = Some Dir"
    unfolding keys s3' by simp_all
  from updatePackageJson_Ok [OF u] obtain c where
    s': "s' = AList.update (fsKey (cwd e) p @ [''package.json'']) (File c) s4"
    unfolding keys by blast
  show ?thesis unfolding s' s4 using d by (simp add: nodeAt_update)
qed

subsection \<open>The examples of a category\<close>

lemma same_length_not_strict_prefix: "\<not> strict_prefix (K @ [a]) (K @ [b])"
  by (auto simp: strict_prefix_def)

lemma same_length_prefix: "prefix (K @ [a]) (K @ [b]) \<longleftrightarrow> a = b"
  by auto

lemma confined_sibling:
  assumes "confined (K @ [a]) s s'" "n \<noteq> a"
  shows "nodeAt s' (K @ [n]) = nodeAt s (K @ [n])"
proof -
  from assms(2) have "\<not> prefix (K @ [a]) (K @ [n])" by (simp add: same_length_prefix)
  from assms(1) [unfolded confined_def, rule_format, OF this]
  show ?thesis using same_length_not_strict_prefix [of K n a] by auto
qed

lemma createExamples_Ok:
  assumes "wfFs s" "dir \<noteq> []"
    and "createExamples e fuel members dir s = Ok paths s'"
  shows "wfFs s'
       \<and> paths = map (\<lambda>m. path_join [dir, ''example-'' @ m]) members
       \<and> (\<forall>m\<in>set members. nodeAt s' (fsKey (cwd e) dir @ [''example-'' @ m]) = Some Dir)
       \<and> (\<forall>n. n \<notin> (\<lambda>m. ''example-'' @ m) ` set members
              \<longrightarrow> nodeAt s' (fsKey (cwd e) dir @ [n]) = nodeAt s (fsKey (cwd e) dir @ [n]))
       \<and> list_all (\<lambda>m. isOwn (getProp EXAMPLES m)) members"
  using assms(1,3)
proof (induction members arbitrary: s paths)
  case Nil
  then show ?case by simp
next
  case (Cons m members)
  let ?Kd = "fsKey (cwd e) dir"
  from Cons.prems(2) obtain p1 s1 ps where
    run: "createExample e fuel m (Some dir) s = Ok p1 s1"
    and rest: "createExamples e fuel members dir s1 = Ok ps s'"
    and paths: "paths = p1 # ps"
    unfolding createExamples.simps bindO_Ok by auto
  from createExample_Ok_Own [OF run] obtain config where own: "getProp EXAMPLES m = Own config"
    by blast
  note reg = registry_config [OF own]
  have base: "baseDirOf e (Some dir) ''generated-examples'' = dir"
    using assms(2) by (simp add: baseDirOf_def)
  from createExample_Own_steps [OF own run]
  have p1: "p1 = path_join [dir, ''example-'' @ m]"
    unfolding exampleDirOf_def base reg(1) by blast
  have k1: "fsKey (cwd e) p1 = ?Kd @ [''example-'' @ m]"
    unfolding p1 using assms(2) reg(4) unfolding reg(1) by (rule joined_key)
  have "good (fsKey (cwd e) (exampleDirOf e (Some dir) config)) s
          (createExample e fuel m (Some dir) s)"
    using own Cons.prems(1) by (rule good_createExample)
  then have w1: "wfFs s1" and c1: "confined (?Kd @ [''example-'' @ m]) s s1"
    unfolding run good_def exampleDirOf_def base reg(1) p1 [symmetric] k1 by simp_all
  have d1: "nodeAt s1 (?Kd @ [''example-'' @ m]) = Some Dir"
    using createExample_Ok_dir [OF own run] unfolding k1 .
  from Cons.IH [OF w1 rest] have
    w': "wfFs s'"
    and ps: "ps = map (\<lambda>m. path_join [dir, ''example-'' @ m]) members"
    and dirs: "\<forall>m\<in>set members. nodeAt s' (?Kd @ [''example-'' @ m]) = Some Dir"
    and others: "\<forall>n. n \<notin> (\<lambda>m. ''example-'' @ m) ` set members
              \<longrightarrow> nodeAt s' (?Kd @ [n]) = nodeAt s1 (?Kd @ [n])"
    and owns: "list_all (\<lambda>m. isOwn (getProp EXAMPLES m)) members"
    by blast+
  have dm: "nodeAt s' (?Kd @ [''example-'' @ m]) = Some Dir"
  proof (cases "m \<in> set members")
    case True
    with dirs show ?thesis by blast
  next
    case False
    then have "''example-'' @ m \<notin> (\<lambda>m. ''example-'' @ m) ` set members" by auto
    with others d1 show ?thesis by simp
  qed
  have fr: "nodeAt s' (?Kd @ [n]) = nodeAt s (?Kd @ [n])"
    if "n \<notin> (\<lambda>m. ''example-'' @ m) ` set (m # members)" for n
  proof -
    from that have a: "n \<noteq> ''example-'' @ m"
      and b: "n \<notin> (\<lambda>m. ''example-'' @ m) ` set members" by auto
    from others b have "nodeAt s' (?Kd @ [n]) = nodeAt s1 (?Kd @ [n])" by blast
    also have "\<dots> = nodeAt s (?Kd @ [n])" using c1 a by (rule confined_sibling)
    finally show ?thesis .
  qed
  from w' paths p1 ps dm dirs fr owns own show ?case by simp
qed

lemma collect_links:
  assumes "list_all (\<lambda>m. isOwn (getProp EXAMPLES m)) members"
  shows "\<exists>configs. list_all2 (\<lambda>m c. getProp EXAMPLES m = Own c) members configs
           \<and> collect (map exampleLink members)
               = Inr (map (\<lambda>(m, c). linkEntry m c) (zip members configs))"
  using assms
proof (induction members)
  case Nil
  then show ?case by simp
next
  case (Cons m members)
  from Cons.prems obtain c where own: "getProp EXAMPLES m = Own c"
    by (cases "getProp EXAMPLES m") auto
  from Cons obtain configs where
    a: "list_all2 (\<lambda>m c. getProp EXAMPLES m = Own c) members configs"
    and b: "collect (map exampleLink members)
              = Inr (map (\<lambda>(m, c). linkEntry m c) (zip members configs))"
    by auto
  have "list_all2 (\<lambda>m c. getProp EXAMPLES m = Own c) (m # members) (c # configs)"
    using own a by simp
  moreover have "collect (map exampleLink (m # members))
      = Inr (map (\<lambda>(m, c). linkEntry m c) (zip (m # members) (c # configs)))"
    using own b by (simp add: exampleLink_def)
  ultimately show ?case by blast
qed

lemma dirsAdded_child:
  assumes "dirsAdded K s s'"
  shows "nodeAt s' (K @ [n]) = nodeAt s (K @ [n])"
  using assms [unfolded dirsAdded_def, rule_format, of "K @ [n]"] by auto

lemma ensure_dir:
  assumes "(if \<not> existsSync e p s then mkdirSync e p s else Ok () s) = Ok u s1" "wfFs s"
  shows "wfFs s1" "dirsAdded (fsKey (cwd e) p) s s1"
proof -
  have "wfFs (finalFs (if \<not> existsSync e p s then mkdirSync e p s else Ok () s))"
    using assms(2) by (simp add: mkdirSync_wf)
  then show "wfFs s1" unfolding assms(1) by simp
  have "dirsAdded (fsKey (cwd e) p) s
          (finalFs (if \<not> existsSync e p s then mkdirSync e p s else Ok () s))"
    by (simp add: mkdirSync_dirsAdded dirsAdded_refl)
  then show "dirsAdded (fsKey (cwd e) p) s s1" unfolding assms(1) by simp
qed

subsection \<open>What a copy leaves at the destination\<close>

lemma confined_outside:
  assumes "confined K s s'" "\<not> prefix K k" "\<not> prefix k K"
  shows "nodeAt s' k = nodeAt s k"
  using assms(1) [unfolded confined_def, rule_format, OF assms(2)] assms(3)
  by (auto simp: strict_prefix_def)

lemma disjoint_below:
  assumes "\<not> prefix K T" "\<not> prefix T K"
  shows "\<not> prefix K (T @ rel)" "\<not> prefix (T @ rel) K"
proof -
  show "\<not> prefix K (T @ rel)"
  proof
    assume "prefix K (T @ rel)"
    from prefix_same_cases [OF this prefixI [OF refl]] assms show False by blast
  qed
  show "\<not> prefix (T @ rel) K"
  proof
    assume "prefix (T @ rel) K"
    then have "prefix T K" using append_prefixD by blast
    with assms(2) show False by simp
  qed
qed

lemma confined_child_of_other:
  assumes "confined (K @ a # as) s s'" "n \<noteq> a"
  shows "nodeAt s' (K @ [n]) = nodeAt s (K @ [n])"
proof (rule confined_outside [OF assms(1)])
  show "\<not> prefix (K @ a # as) (K @ [n])" using assms(2) by auto
  show "\<not> prefix (K @ [n]) (K @ a # as)" using assms(2) by auto
qed

lemma nodeAt_childNames:
  assumes "nodeAt s (k @ [n]) = Some v"
  shows "n \<in> set (childNames s k)"
proof -
  from assms have "map_of s (k @ [n]) = Some v" by (simp add: nodeAt_def)
  then have "(k @ [n], v) \<in> set s" by (rule map_of_SomeD)
  then have "(k @ [n], v) \<in> set (filter (\<lambda>(q, n). q \<noteq> [] \<and> butlast q = k) s)" by simp
  then have "(last \<circ> fst) (k @ [n], v)
      \<in> set (map (last \<circ> fst) (filter (\<lambda>(q, n). q \<noteq> [] \<and> butlast q = k) s))"
    by (rule imageI [THEN subst [OF set_map [symmetric], of "\<lambda>A. _ \<in> A"]])
  then show ?thesis by (simp add: childNames_def)
qed

lemma copyEntries_Ok_Cons:
  assumes "copyEntries e fuel src dest ((nm, d) # entries) s = Ok u s'"
  shows "\<exists>u1 s1.
      (if d then copyDirectory e fuel (path_join [src, nm]) (path_join [dest, nm]) s
       else copyFileSync e (path_join [src, nm]) (path_join [dest, nm]) s) = Ok u1 s1
    \<and> copyEntries e fuel src dest entries s1 = Ok u s'"
  using assms unfolding copyEntries.simps bindO_Ok Let_def by blast

lemma entry_step_good:
  assumes "dest \<noteq> []" "wfFs s" "simpleName nm"
  shows "good (fsKey (cwd e) dest @ [nm]) s
      (if d then copyDirectory e fuel (path_join [src, nm]) (path_join [dest, nm]) s
       else copyFileSync e (path_join [src, nm]) (path_join [dest, nm]) s)"
proof -
  have key: "fsKey (cwd e) (path_join [dest, nm]) = fsKey (cwd e) dest @ [nm]"
    using assms(1,3) by (rule joined_key)
  show ?thesis
  proof (cases d)
    case True
    have "good (fsKey (cwd e) (path_join [dest, nm])) s
            (copyDirectory e fuel (path_join [src, nm]) (path_join [dest, nm]) s)"
      using assms(2) by (intro good_copyDirectory path_join_nonempty)
    with True show ?thesis unfolding key by simp
  next
    case False
    have "good (fsKey (cwd e) (path_join [dest, nm])) s
            (copyFileSync e (path_join [src, nm]) (path_join [dest, nm]) s)"
      using assms(2) by (rule good_copyFileSync)
    with False show ?thesis unfolding key by simp
  qed
qed

lemma copyEntries_sibling:
  assumes "dest \<noteq> []" "wfFs s" "\<forall>(n, d) \<in> set entries. simpleName n"
    and "nm \<notin> fst ` set entries"
    and "copyEntries e fuel src dest entries s = Ok u s'"
  shows "nodeAt s' (fsKey (cwd e) dest @ [nm]) = nodeAt s (fsKey (cwd e) dest @ [nm])"
  using assms(2-5)
proof (induction entries arbitrary: s)
  case Nil
  then show ?case by simp
next
  case (Cons entry entries)
  obtain n1 d1 where entry: "entry = (n1, d1)" by (cases entry)
  from Cons.prems(2,3) entry have sn: "simpleName n1" and ne: "nm \<noteq> n1" by auto
  from copyEntries_Ok_Cons [OF Cons.prems(4) [unfolded entry]] obtain u1 s1 where
    step: "(if d1 then copyDirectory e fuel (path_join [src, n1]) (path_join [dest, n1]) s
       else copyFileSync e (path_join [src, n1]) (path_join [dest, n1]) s) = Ok u1 s1"
    and rest: "copyEntries e fuel src dest entries s1 = Ok u s'"
    by blast
  from entry_step_good [OF assms(1) Cons.prems(1) sn, of e d1 fuel src]
  have w1: "wfFs s1" and c1: "confined (fsKey (cwd e) dest @ [n1]) s s1"
    unfolding step good_def by simp_all
  from Cons.IH [OF w1 _ _ rest] Cons.prems(2,3)
  have "nodeAt s' (fsKey (cwd e) dest @ [nm]) = nodeAt s1 (fsKey (cwd e) dest @ [nm])" by auto
  also have "\<dots> = nodeAt s (fsKey (cwd e) dest @ [nm])"
    using c1 ne by (rule confined_sibling)
  finally show ?case .
qed

lemma copyEntries_copies_file:
  assumes "src \<noteq> []" "dest \<noteq> []"
    and disj: "\<not> prefix (fsKey (cwd e) dest) (fsKey (cwd e) src)"
              "\<not> prefix (fsKey (cwd e) src) (fsKey (cwd e) dest)"
    and "wfFs s" "\<forall>(n, d) \<in> set entries. simpleName n" "distinct (map fst entries)"
    and "(nm, False) \<in> set entries"
    and "nodeAt s (fsKey (cwd e) src @ [nm]) = Some (File m)"
    and "copyEntries e fuel src dest entries s = Ok u s'"
  shows "nodeAt s' (fsKey (cwd e) dest @ [nm]) = Some (File m)"
  using assms(5-10)
proof (induction entries arbitrary: s)
  case Nil
  then show ?case by simp
next
  case (Cons entry entries)
  let ?Ks = "fsKey (cwd e) src" and ?Kd = "fsKey (cwd e) dest"
  obtain n1 d1 where entry: "entry = (n1, d1)" by (cases entry)
  from Cons.prems(2) entry have sn: "simpleName n1" by simp
  from copyEntries_Ok_Cons [OF Cons.prems(6) [unfolded entry]] obtain u1 s1 where
    step: "(if d1 then copyDirectory e fuel (path_join [src, n1]) (path_join [dest, n1]) s
       else copyFileSync e (path_join [src, n1]) (path_join [dest, n1]) s) = Ok u1 s1"
    and rest: "copyEntries e fuel src dest entries s1 = Ok u s'"
    by blast
  from entry_step_good [OF assms(2) Cons.prems(1) sn, of e d1 fuel src]
  have w1: "wfFs s1" and c1: "confined (?Kd @ [n1]) s s1"
    unfolding step good_def by simp_all
  from Cons.prems(2) have sr: "\<forall>(n, d) \<in> set entries. simpleName n" by simp
  from Cons.prems(3) have dr: "distinct (map fst entries)" by simp
  show ?case
  proof (cases "n1 = nm")
    case True
    with Cons.prems(3,4) entry have d1: "d1 = False" and nin: "nm \<notin> fst ` set entries"
      by (auto simp: image_iff)
    have ks: "fsKey (cwd e) (path_join [src, nm]) = ?Ks @ [nm]"
      using assms(1) sn unfolding True by (rule joined_key)
    have kd: "fsKey (cwd e) (path_join [dest, nm]) = ?Kd @ [nm]"
      using assms(2) sn unfolding True by (rule joined_key)
    from step have cp: "copyFileSync e (path_join [src, nm]) (path_join [dest, nm]) s = Ok u1 s1"
      unfolding d1 True by simp
    then obtain c s0 where r: "readFileSync e (path_join [src, nm]) s = Ok c s0"
      and w: "writeFileSync e (path_join [dest, nm]) c s0 = Ok u1 s1"
      unfolding copyFileSync_def bindO_Ok by blast
    from readFileSync_Ok [OF r] Cons.prems(5) have c: "c = m" and s0: "s0 = s"
      unfolding ks by simp_all
    from writeFileSync_Ok(1) [OF w] have "s1 = AList.update (?Kd @ [nm]) (File m) s"
      unfolding kd c s0 .
    then have "nodeAt s1 (?Kd @ [nm]) = Some (File m)" by (simp add: nodeAt_update)
    with copyEntries_sibling [OF assms(2) w1 sr nin rest] show ?thesis by simp
  next
    case False
    with Cons.prems(4) entry have mem: "(nm, False) \<in> set entries" by auto
    have "confined ?Kd s s1" using c1 by (rule confined_mono) simp
    from confined_outside [OF this disjoint_below [OF disj, of "[nm]"]] Cons.prems(5)
    have "nodeAt s1 (?Ks @ [nm]) = Some (File m)" by simp
    from Cons.IH [OF w1 sr dr mem this rest] show ?thesis .
  qed
qed

lemma copyDirectory_copies_file:
  assumes "src \<noteq> []" "dest \<noteq> []"
    and disj: "\<not> prefix (fsKey (cwd e) dest) (fsKey (cwd e) src)"
              "\<not> prefix (fsKey (cwd e) src) (fsKey (cwd e) dest)"
    and "wfFs s"
    and "nodeAt s (fsKey (cwd e) src @ [nm]) = Some (File m)"
    and "copyDirectory e fuel src dest s = Ok u s'"
  shows "nodeAt s' (fsKey (cwd e) dest @ [nm]) = Some (File m)"
proof (cases fuel)
  case 0
  with assms(7) show ?thesis by simp
next
  case (Suc n)
  let ?Ks = "fsKey (cwd e) src" and ?Kd = "fsKey (cwd e) dest"
  from assms(7) obtain u1 s1 entries s2 where
    mk: "(if \<not> existsSync e dest s then mkdirSync e dest s else Ok () s) = Ok u1 s1"
    and rd: "readdirSync e src s1 = Ok entries s2"
    and ce: "copyEntries e n src dest entries s2 = Ok u s'"
    unfolding Suc copyDirectory.simps bindO_Ok by blast
  note d = ensure_dir [OF mk assms(5)]
  from d(2) [unfolded dirsAdded_def, rule_format, of "?Ks @ [nm]"] assms(6)
  have f1: "nodeAt s1 (?Ks @ [nm]) = Some (File m)" by auto
  note r = readdirSync_Ok [OF rd]
  have names: "\<forall>(n, d) \<in> set entries. simpleName n"
    using readdirSync_names_simple [OF rd d(1)] by auto
  have dist: "distinct (map fst entries)"
    unfolding r(3) by (simp add: o_def childNames_def)
  have mem: "(nm, False) \<in> set entries"
    unfolding r(3) using nodeAt_childNames [OF f1] f1 by (auto simp: image_iff)
  from copyEntries_copies_file [OF assms(1,2) disj _ names dist mem _ ce] d(1) f1 r(1)
  show ?thesis by simp
qed

lemma updatePackageJson_Ok_detail:
  assumes "updatePackageJson e config destPath s = Ok u s'"
  shows "\<exists>raw j j'.
      nodeAt s (fsKey (cwd e) (path_join [destPath, ''package.json''])) = Some (File raw)
    \<and> parseJSON e raw = Some j \<and> updateManifest config j = Some j'
    \<and> s' = AList.update (fsKey (cwd e) (path_join [destPath, ''package.json'']))
               (File (stringifyJSON e j')) s"
proof -
  from assms obtain raw s1 where
    r: "readFileSync e (path_join [destPath, ''package.json'']) s = Ok raw s1"
    and rest: "(case parseJSON e raw of
          None \<Rightarrow> Fail SyntaxError s1
        | Some packageJson \<Rightarrow>
            (case updateManifest config packageJson of
               None \<Rightarrow> Fail TypeError s1
             | Some packageJson' \<Rightarrow>
                 writeFileSync e (path_join [destPath, ''package.json''])
                   (stringifyJSON e packageJson') s1)) = Ok u s'"
    unfolding updatePackageJson_def Let_def bindO_Ok by blast
  note rr = readFileSync_Ok [OF r]
  from rest obtain j j' where
    j: "parseJSON e raw = Some j" and j': "updateManifest config j = Some j'"
    and w: "writeFileSync e (path_join [destPath, ''package.json'']) (stringifyJSON e j') s1 = Ok u s'"
    by (auto split: option.splits)
  from writeFileSync_Ok(1) [OF w] rr j j' show ?thesis by blast
qed

lemma step_good:
  assumes "good K s r" "r = Ok u s1"
  shows "wfFs s1" "confined K s s1"
  using assms by (simp_all add: good_def)

lemma createExample_result:
  assumes own: "getProp EXAMPLES exampleName = Own config"
    and wf: "wfFs s"
    and dT: "\<not> prefix (fsKey (cwd e) (exampleDirOf e outputDir config)) (fsKey (cwd e) (templateDirOf e))"
            "\<not> prefix (fsKey (cwd e) (templateDirOf e)) (fsKey (cwd e) (exampleDirOf e outputDir config))"
    and dR: "\<not> prefix (fsKey (cwd e) (exampleDirOf e outputDir config)) (fsKey (cwd e) (templateReadmePath e))"
            "\<not> prefix (fsKey (cwd e) (templateReadmePath e)) (fsKey (cwd e) (exampleDirOf e outputDir config))"
    and man: "nodeAt s (fsKey (cwd e) (templateDirOf e) @ [''package.json'']) = Some (File m)"
    and run: "createExample e fuel exampleName outputDir s = Ok p s'"
  shows "wfFs s'"
    and "confined (fsKey (cwd e) (exampleDirOf e outputDir config)) s s'"
    and "\<exists>t j j'.
           nodeAt s (fsKey (cwd e) (templateReadmePath e)) = Some (File t)
         \<and> nodeAt s' (fsKey (cwd e) (exampleDirOf e outputDir config) @ [''README.md''])
             = Some (File (renderReadme config t))
         \<and> parseJSON e m = Some j \<and> updateManifest config j = Some j'
         \<and> nodeAt s' (fsKey (cwd e) (exampleDirOf e outputDir config) @ [''package.json''])
             = Some (File (stringifyJSON e j'))"
proof -
  let ?p = "exampleDirOf e outputDir config"
  let ?K = "fsKey (cwd e) ?p"
  let ?T = "fsKey (cwd e) (templateDirOf e)"
  let ?R = "fsKey (cwd e) (templateReadmePath e)"
  from good_createExample [OF own wf, of e outputDir fuel]
  show w': "wfFs s'" and c': "confined ?K s s'"
    unfolding run good_def by simp_all
  from createExample_Own_steps [OF own run] obtain s1 s2 s3 s4 where
    p: "p = ?p"
    and st0: "copyDirectory e fuel (templateDirOf e) p s = Ok () s1"
    and st1: "copyIfExists e
          (path_join [dirname e, ''../examples'', name config, ''contracts'', contractFile config])
          (path_join [p, ''contracts'', contractFile config]) s1 = Ok () s2"
    and st2: "copyIfExists e
          (path_join [dirname e, ''../examples'', name config, ''test'', testFile config])
          (path_join [p, ''test'', testFile config]) s2 = Ok () s3"
    and st3: "generateReadme e config (path_join [p, ''README.md'']) s3 = Ok () s4"
    and st4: "updatePackageJson e config p s4 = Ok () s'"
    by blast
  note pne = exampleDirOf_nonempty [of e outputDir config]
  note keys = example_keys [OF own pne, of e]
  have tne: "templateDirOf e \<noteq> []" unfolding templateDirOf_def by (rule path_join_nonempty)
  note g0 = step_good [OF good_copyDirectory [OF pne wf] st0 [unfolded p]]
  note g1 = step_good [OF good_copyIfExists [OF g0(1)] st1 [unfolded p], unfolded keys]
  note g2 = step_good [OF good_copyIfExists [OF g1(1)] st2 [unfolded p], unfolded keys]
  have m1: "nodeAt s1 (?K @ [''package.json'']) = Some (File m)"
    using copyDirectory_copies_file [OF tne pne dT wf man st0 [unfolded p]] .
  have m2: "nodeAt s2 (?K @ [''package.json'']) = Some (File m)"
    using confined_child_of_other [OF g1(2), of "''package.json''"] m1 by simp
  have m3: "nodeAt s3 (?K @ [''package.json'']) = Some (File m)"
    using confined_child_of_other [OF g2(2), of "''package.json''"] m2 by simp
  have c3: "confined ?K s s3"
    by (intro confined_trans [OF g0(2)] confined_trans [OF confined_mono [OF g1(2)]]
        confined_mono [OF g2(2)]) simp_all
  from generateReadme_Ok [OF st3 [unfolded p]] obtain t where
    s4: "s4 = AList.update (?K @ [''README.md'']) (File (renderReadme config t)) s3"
    and t3: "nodeAt s3 ?R = Some (File t)"
    unfolding keys templateReadmePath_def [symmetric] by blast
  have t0: "nodeAt s ?R = Some (File t)"
    using confined_outside [OF c3 dR] t3 by simp
  have m4: "nodeAt s4 (?K @ [''package.json'']) = Some (File m)"
    unfolding s4 using m3 by (simp add: nodeAt_update)
  from updatePackageJson_Ok_detail [OF st4 [unfolded p]] m4 obtain j j' where
    j: "parseJSON e m = Some j" and j': "updateManifest config j = Some j'"
    and s': "s' = AList.update (?K @ [''package.json'']) (File (stringifyJSON e j')) s4"
    unfolding keys by auto
  have r': "nodeAt s' (?K @ [''README.md'']) = Some (File (renderReadme config t))"
    unfolding s' s4 by (simp add: nodeAt_update)
  have p': "nodeAt s' (?K @ [''package.json'']) = Some (File (stringifyJSON e j'))"
    unfolding s' by (simp add: nodeAt_update)
  show "\<exists>t j j'.
           nodeAt s ?R = Some (File t)
         \<and> nodeAt s' (?K @ [''README.md'']) = Some (File (renderReadme config t))
         \<and> parseJSON e m = Some j \<and> updateManifest config j = Some j'
         \<and> nodeAt s' (?K @ [''package.json'']) = Some (File (stringifyJSON e j'))"
    using t0 r' j j' p' by blast
qed

text \<open>
  C7: with the destination outside the template directory and outside the template of the
  README, and a manifest file in the base template, two successful runs of \<open>createExample\<close> with
  the same id and output directory, the second started on what the first has left, leave the
  same \<open>README.md\<close> and the same \<open>package.json\<close> at the destination.
\<close>

theorem createExample_twice_same_readme_and_manifest:
  assumes "getProp EXAMPLES exampleName = Own config"
    and "wfFs s"
    and "\<not> prefix (fsKey (cwd e) (exampleDirOf e outputDir config)) (fsKey (cwd e) (templateDirOf e))"
    and "\<not> prefix (fsKey (cwd e) (templateDirOf e)) (fsKey (cwd e) (exampleDirOf e outputDir config))"
    and "\<not> prefix (fsKey (cwd e) (exampleDirOf e outputDir config)) (fsKey (cwd e) (templateReadmePath e))"
    and "\<not> prefix (fsKey (cwd e) (templateReadmePath e)) (fsKey (cwd e) (exampleDirOf e outputDir config))"
    and "nodeAt s (fsKey (cwd e) (templateDirOf e) @ [''package.json'']) = Some (File m)"
    and "createExample e fuel exampleName outputDir s = Ok p s1"
    and "createExample e fuel' exampleName outputDir s1 = Ok p' s2"
  shows "\<exists>readme manifest.
           nodeAt s1 (fsKey (cwd e) p @ [''README.md'']) = Some (File readme)
         \<and> nodeAt s2 (fsKey (cwd e) p @ [''README.md'']) = Some (File readme)
         \<and> nodeAt s1 (fsKey (cwd e) p @ [''package.json'']) = Some (File manifest)
         \<and> nodeAt s2 (fsKey (cwd e) p @ [''package.json'']) = Some (File manifest)"
proof -
  let ?K = "fsKey (cwd e) (exampleDirOf e outputDir config)"
  let ?T = "fsKey (cwd e) (templateDirOf e)"
  let ?R = "fsKey (cwd e) (templateReadmePath e)"
  have p: "p = exampleDirOf e outputDir config"
    using createExample_Own_steps [OF assms(1,8)] by blast
  note r1 = createExample_result [OF assms(1-8)]
  have man1: "nodeAt s1 (?T @ [''package.json'']) = Some (File m)"
    using confined_outside [OF r1(2) disjoint_below [OF assms(3,4), of "[''package.json'']"]]
      assms(7) by simp
  have tr1: "nodeAt s1 ?R = nodeAt s ?R"
    using r1(2) assms(5,6) by (rule confined_outside)
  note r2 = createExample_result [OF assms(1) r1(1) assms(3-6) man1 assms(9)]
  from r1(3) obtain t j j' where
    t: "nodeAt s ?R = Some (File t)"
    and rd1: "nodeAt s1 (?K @ [''README.md'']) = Some (File (renderReadme config t))"
    and j: "parseJSON e m = Some j" "updateManifest config j = Some j'"
    and pj1: "nodeAt s1 (?K @ [''package.json'']) = Some (File (stringifyJSON e j'))"
    by blast
  from r2(3) obtain t2 j2 j2' where
    t2: "nodeAt s1 ?R = Some (File t2)"
    and rd2: "nodeAt s2 (?K @ [''README.md'']) = Some (File (renderReadme config t2))"
    and j2: "parseJSON e m = Some j2" "updateManifest config j2 = Some j2'"
    and pj2: "nodeAt s2 (?K @ [''package.json'']) = Some (File (stringifyJSON e j2'))"
    by blast
  from t t2 tr1 have "t2 = t" by simp
  moreover from j j2 have "j2' = j'" by simp
  ultimately show ?thesis
    unfolding p using rd1 rd2 pj1 pj2 by blast
qed

lemma wfFs_demoFs: "wfFs demoFs"
  by (simp add: wfFs_def demoFs_def simpleName_def)

lemma demo_exampleDirOf:
  "exampleDirOf demoEnv (Some ''./out'') ex_access_control = ''out/example-access-control''"
  unfolding exampleDirOf_def by (rule demo_exampleDir)

lemma demo_templateDirOf: "templateDirOf demoEnv = ''/r/templates/hardhat-base''"
  unfolding templateDirOf_def by (rule demo_templateDir)

lemma demo_templateDir_key:
  "fsKey (cwd demoEnv) ''/r/templates/hardhat-base'' = [''r'', ''templates'', ''hardhat-base'']"
  by (simp add: path_defs demoEnv_def)

lemma demo_templateReadme_key:
  "fsKey (cwd demoEnv) (templateReadmePath demoEnv)
     = [''r'', ''templates'', ''hardhat-base'', ''README.template.md'']"
  by (simp add: templateReadmePath_def path_defs demoEnv_def)

lemma demo_copy_again:
  "copyDirectory demoEnv (Suc 0) ''/r/templates/hardhat-base'' ''out/example-access-control'' demoFsAfter
     = Ok () (AList.update [''w'', ''out'', ''example-access-control'', ''package.json'']
                (File demoManifestText) demoFsAfter)"
  by (simp add: path_defs fs_defs demoEnv_def demoFs_def demoFsAfter_def)

lemma demo_contract_absent_again:
  "copyIfExists demoEnv
     (path_join [dirname demoEnv, ''../examples'', name ex_access_control, ''contracts'',
                 contractFile ex_access_control])
     (path_join [''out/example-access-control'', ''contracts'', contractFile ex_access_control])
     (AList.update [''w'', ''out'', ''example-access-control'', ''package.json'']
                (File demoManifestText) demoFsAfter)
   = Ok () (AList.update [''w'', ''out'', ''example-access-control'', ''package.json'']
                (File demoManifestText) demoFsAfter)"
  by (simp add: path_defs demoEnv_def access_control_fields copyIfExists_def existsSync_def
      nodeAt_def demoFsAfter_def demoFs_def)

lemma demo_test_absent_again:
  "copyIfExists demoEnv
     (path_join [dirname demoEnv, ''../examples'', name ex_access_control, ''test'',
                 testFile ex_access_control])
     (path_join [''out/example-access-control'', ''test'', testFile ex_access_control])
     (AList.update [''w'', ''out'', ''example-access-control'', ''package.json'']
                (File demoManifestText) demoFsAfter)
   = Ok () (AList.update [''w'', ''out'', ''example-access-control'', ''package.json'']
                (File demoManifestText) demoFsAfter)"
  by (simp add: path_defs demoEnv_def access_control_fields copyIfExists_def existsSync_def
      nodeAt_def demoFsAfter_def demoFs_def)

lemma demo_readme_again:
  "generateReadme demoEnv ex_access_control
     (path_join [''out/example-access-control'', ''README.md''])
     (AList.update [''w'', ''out'', ''example-access-control'', ''package.json'']
                (File demoManifestText) demoFsAfter)
   = Ok () (AList.update [''w'', ''out'', ''example-access-control'', ''package.json'']
                (File demoManifestText) demoFsAfter)"
  unfolding generateReadme_def demo_templatePath
  by (simp add: path_defs demoEnv_def readFileSync_def writeFileSync_def bindO_def
      nodeAt_def demoFs_def demoFsAfter_def)

lemma demo_manifest_again:
  "updatePackageJson demoEnv ex_access_control ''out/example-access-control''
     (AList.update [''w'', ''out'', ''example-access-control'', ''package.json'']
                (File demoManifestText) demoFsAfter)
     = Ok () demoFsAfter"
  by (simp add: updatePackageJson_def path_defs demoEnv_def readFileSync_def writeFileSync_def
      bindO_def nodeAt_def demoFs_def demoFsAfter_def demoParse_def
      updateManifest_def access_control_fields)

lemma demo_run_again:
  "createExample demoEnv (Suc 0) ''access-control'' (Some ''./out'') demoFsAfter
     = Ok ''out/example-access-control'' demoFsAfter"
  by (simp only: createExample_def getProp_access_control jsprop.case Let_def
      demo_templateDir demo_exampleDir bindO_def outcome.case
      demo_copy_again demo_contract_absent_again demo_test_absent_again demo_readme_again
      demo_manifest_again)

theorem createExample_twice_same_readme_and_manifest_witness:
  "createExample demoEnv (Suc 0) ''access-control'' (Some ''./out'') demoFs
     = Ok ''out/example-access-control'' demoFsAfter
   \<and> createExample demoEnv (Suc 0) ''access-control'' (Some ''./out'') demoFsAfter
     = Ok ''out/example-access-control'' demoFsAfter
   \<and> (\<exists>readme manifest.
         nodeAt demoFsAfter [''w'', ''out'', ''example-access-control'', ''README.md'']
           = Some (File readme)
       \<and> nodeAt demoFsAfter [''w'', ''out'', ''example-access-control'', ''package.json'']
           = Some (File manifest))"
proof -
  have h3: "\<not> prefix (fsKey (cwd demoEnv) (exampleDirOf demoEnv (Some ''./out'') ex_access_control))
               (fsKey (cwd demoEnv) (templateDirOf demoEnv))"
    unfolding demo_exampleDirOf demo_templateDirOf demo_exampleDir_key demo_templateDir_key
    by simp
  have h4: "\<not> prefix (fsKey (cwd demoEnv) (templateDirOf demoEnv))
               (fsKey (cwd demoEnv) (exampleDirOf demoEnv (Some ''./out'') ex_access_control))"
    unfolding demo_exampleDirOf demo_templateDirOf demo_exampleDir_key demo_templateDir_key
    by simp
  have h5: "\<not> prefix (fsKey (cwd demoEnv) (exampleDirOf demoEnv (Some ''./out'') ex_access_control))
               (fsKey (cwd demoEnv) (templateReadmePath demoEnv))"
    unfolding demo_exampleDirOf demo_exampleDir_key demo_templateReadme_key by simp
  have h6: "\<not> prefix (fsKey (cwd demoEnv) (templateReadmePath demoEnv))
               (fsKey (cwd demoEnv) (exampleDirOf demoEnv (Some ''./out'') ex_access_control))"
    unfolding demo_exampleDirOf demo_exampleDir_key demo_templateReadme_key by simp
  have h7: "nodeAt demoFs (fsKey (cwd demoEnv) (templateDirOf demoEnv) @ [''package.json''])
              = Some (File demoManifestText)"
    unfolding demo_templateDirOf demo_templateDir_key by (simp add: nodeAt_def demoFs_def)
  from createExample_twice_same_readme_and_manifest
    [OF getProp_access_control wfFs_demoFs h3 h4 h5 h6 h7 demo_run demo_run_again]
  have "\<exists>readme manifest.
         nodeAt demoFsAfter [''w'', ''out'', ''example-access-control'', ''README.md'']
           = Some (File readme)
       \<and> nodeAt demoFsAfter [''w'', ''out'', ''example-access-control'', ''package.json'']
           = Some (File manifest)"
    unfolding demo_exampleDir_key by auto
  with demo_run demo_run_again show ?thesis by (intro conjI)
qed

lemma tokenShaped_split:
  assumes "tokenShaped k"
  obtains nm where "k = ''{{'' @ nm @ ''}}''" "CHR ''{'' \<notin> set nm" "CHR ''}'' \<notin> set nm"
proof -
  let ?nm = "take (length k - 4) (drop 2 k)"
  from assms have len: "4 \<le> length k" and a: "take 2 k = ''{{''"
    and b: "drop (length k - 2) k = ''}}''"
    and c: "CHR ''{'' \<notin> set (drop 2 k)" and d: "CHR ''}'' \<notin> set (take (length k - 2) k)"
    by (simp_all add: tokenShaped_def)
  have e1: "k = take 2 k @ drop 2 k" by (rule append_take_drop_id [symmetric])
  have e2: "drop 2 k = ?nm @ drop (length k - 4) (drop 2 k)"
    by (rule append_take_drop_id [symmetric])
  have "length k - 4 + 2 = length k - 2" using len by simp
  then have e3: "drop (length k - 4) (drop 2 k) = drop (length k - 2) k"
    by (simp only: drop_drop)
  have k: "k = ''{{'' @ ?nm @ ''}}''"
    using e1 e2 unfolding e3 a b by simp
  have "set ?nm \<subseteq> set (drop 2 k)" by (rule set_take_subset)
  with c have n1: "CHR ''{'' \<notin> set ?nm" by blast
  have "?nm = drop 2 (take (length k - 2) k)"
    using len by (simp add: drop_take)
  then have "set ?nm \<subseteq> set (take (length k - 2) k)" by (simp add: set_drop_subset)
  with d have n2: "CHR ''}'' \<notin> set ?nm" by blast
  from k n1 n2 show ?thesis by (rule that)
qed

lemma replaceFrom_skip:
  assumes "key \<noteq> []" "hd key \<notin> set xs"
  shows "replaceFrom key val pre (xs @ rest) = xs @ replaceFrom key val (pre @ xs) rest"
  using assms(2)
proof (induction xs arbitrary: pre)
  case Nil
  then show ?case by simp
next
  case (Cons x xs)
  have np: "\<not> prefix key ((x # xs) @ rest)"
  proof
    assume "prefix key ((x # xs) @ rest)"
    with assms(1) have "hd key = x" by (cases key) auto
    with Cons.prems show False by simp
  qed
  have "replaceFrom key val pre ((x # xs) @ rest)
          = x # replaceFrom key val (pre @ [x]) (xs @ rest)"
    using replaceFrom_nomatch [OF assms(1) _ np, of val pre] by simp
  also have "replaceFrom key val (pre @ [x]) (xs @ rest)
          = xs @ replaceFrom key val ((pre @ [x]) @ xs) rest"
    using Cons.prems by (intro Cons.IH) simp
  finally show ?case by simp
qed

lemma replaceFrom_same:
  assumes "key \<noteq> []" "CHR ''$'' \<notin> set val"
  shows "replaceFrom key val pre (key @ rest) = val @ replaceFrom key val (pre @ key) rest"
  using replaceFrom_match [of key "key @ rest" val pre] assms
  by (simp add: getSubstitution_plain)

lemma name_before_close:
  assumes "CHR ''}'' \<notin> set nm"
  shows "takeWhile (\<lambda>c. c \<noteq> CHR ''}'') (nm @ CHR ''}'' # zs) = nm"
  using assms by (induction nm) auto

lemma replaceFrom_other:
  assumes k: "tokenShaped k" and k': "tokenShaped k'" and ne: "k \<noteq> k'"
  shows "replaceFrom k val pre (k' @ rest) = k' @ replaceFrom k val (pre @ k') rest"
proof -
  from k obtain nm where kk: "k = ''{{'' @ nm @ ''}}''"
    and nm: "CHR ''{'' \<notin> set nm" "CHR ''}'' \<notin> set nm" by (rule tokenShaped_split)
  from k' obtain nm' where kk': "k' = ''{{'' @ nm' @ ''}}''"
    and nm': "CHR ''{'' \<notin> set nm'" "CHR ''}'' \<notin> set nm'" by (rule tokenShaped_split)
  have kne: "k \<noteq> []" and hk: "hd k = CHR ''{''" unfolding kk by simp_all
  let ?t1 = "CHR ''{'' # nm' @ ''}}'' @ rest"
  let ?t2 = "nm' @ ''}}''"
  have p0: "\<not> prefix k (k' @ rest)"
  proof
    assume "prefix k (k' @ rest)"
    then have "prefix (nm @ ''}}'') (nm' @ ''}}'' @ rest)" unfolding kk kk' by simp
    then obtain zs where "nm' @ ''}}'' @ rest = (nm @ ''}}'') @ zs" by (auto simp: prefix_def)
    then have "nm' @ CHR ''}'' # (''}'' @ rest) = nm @ CHR ''}'' # (''}'' @ zs)" by simp
    then have "takeWhile (\<lambda>c. c \<noteq> CHR ''}'') (nm' @ CHR ''}'' # (''}'' @ rest))
             = takeWhile (\<lambda>c. c \<noteq> CHR ''}'') (nm @ CHR ''}'' # (''}'' @ zs))" by (rule arg_cong)
    then have "nm' = nm"
      unfolding name_before_close [OF nm'(2)] name_before_close [OF nm(2)] .
    with ne show False unfolding kk kk' by simp
  qed
  have p1: "\<not> prefix k ?t1"
  proof
    assume "prefix k ?t1"
    then have "prefix (CHR ''{'' # nm @ ''}}'') (nm' @ ''}}'' @ rest)" unfolding kk by simp
    then show False using nm'(1) by (cases nm') auto
  qed
  have e0: "k' @ rest = CHR ''{'' # ?t1" unfolding kk' by simp
  have "replaceFrom k val pre (k' @ rest) = CHR ''{'' # replaceFrom k val (pre @ ''{'') ?t1"
    using replaceFrom_nomatch [OF kne _ p0, of val pre] unfolding e0 by simp
  also have "replaceFrom k val (pre @ ''{'') ?t1
      = CHR ''{'' # replaceFrom k val ((pre @ ''{'') @ ''{'') (?t2 @ rest)"
    using replaceFrom_nomatch [OF kne _ p1, of val "pre @ ''{''"] by simp
  also have "replaceFrom k val ((pre @ ''{'') @ ''{'') (?t2 @ rest)
      = ?t2 @ replaceFrom k val (((pre @ ''{'') @ ''{'') @ ?t2) rest"
    using nm'(1) by (intro replaceFrom_skip [OF kne]) (simp add: hk)
  finally show ?thesis unfolding kk' by simp
qed

lemma templateText_Nil: "templateText [] = []"
  by (simp add: templateText_def)

lemma templateText_Cons: "templateText (p # ps) = pieceText p @ templateText ps"
  by (simp add: templateText_def)

lemma fillOne_simps:
  "fillOne k v (Text t) = Text t"
  "fillOne k v (Token k) = Text v"
  "k' \<noteq> k \<Longrightarrow> fillOne k v (Token k') = Token k'"
  by (simp_all add: fillOne_def)

lemma replaceFrom_pieces:
  assumes "tokenShaped k" "CHR ''$'' \<notin> set v" "list_all wellFormedPiece ps"
  shows "replaceFrom k v pre (templateText ps) = templateText (map (fillOne k v) ps)"
  using assms(3)
proof (induction ps arbitrary: pre)
  case Nil
  from assms(1) have "k \<noteq> []" by (auto simp: tokenShaped_def)
  then show ?case by (simp add: templateText_Nil replaceFrom_Nil)
next
  case (Cons p ps)
  from assms(1) have kne: "k \<noteq> []" by (auto simp: tokenShaped_def)
  from assms(1) have hk: "hd k = CHR ''{''" by (elim tokenShaped_split) simp
  from Cons.prems have wp: "wellFormedPiece p" and wps: "list_all wellFormedPiece ps" by simp_all
  note IH = Cons.IH [OF wps]
  show ?case
  proof (cases p)
    case (Text t)
    with wp have "hd k \<notin> set t" by (simp add: hk)
    from replaceFrom_skip [OF kne this, of v pre "templateText ps"]
    have "replaceFrom k v pre (templateText (p # ps))
            = t @ replaceFrom k v (pre @ t) (templateText ps)"
      unfolding Text templateText_Cons pieceText.simps .
    also have "\<dots> = t @ templateText (map (fillOne k v) ps)" by (simp only: IH)
    also have "\<dots> = templateText (map (fillOne k v) (p # ps))"
      unfolding Text by (simp add: templateText_Cons fillOne_simps)
    finally show ?thesis .
  next
    case (Token k')
    show ?thesis
    proof (cases "k' = k")
      case True
      from replaceFrom_same [OF kne assms(2), of pre "templateText ps"]
      have "replaceFrom k v pre (templateText (p # ps))
            = v @ replaceFrom k v (pre @ k) (templateText ps)"
        unfolding Token True templateText_Cons pieceText.simps .
      also have "\<dots> = v @ templateText (map (fillOne k v) ps)" by (simp only: IH)
      also have "\<dots> = templateText (map (fillOne k v) (p # ps))"
        unfolding Token True by (simp add: templateText_Cons fillOne_simps)
      finally show ?thesis .
    next
      case False
      from wp Token have "tokenShaped k'" by simp
      from replaceFrom_other [OF assms(1) this, of v pre "templateText ps"] False
      have "replaceFrom k v pre (templateText (p # ps))
            = k' @ replaceFrom k v (pre @ k') (templateText ps)"
        unfolding Token templateText_Cons pieceText.simps by blast
      also have "\<dots> = k' @ templateText (map (fillOne k v) ps)" by (simp only: IH)
      also have "\<dots> = templateText (map (fillOne k v) (p # ps))"
        unfolding Token using False by (simp add: templateText_Cons fillOne_simps)
      finally show ?thesis .
    qed
  qed
qed

lemma fillOne_wellFormed:
  assumes "CHR ''{'' \<notin> set v" "list_all wellFormedPiece ps"
  shows "list_all wellFormedPiece (map (fillOne k v) ps)"
  using assms by (induction ps) (auto simp: fillOne_def)

lemma fillPiece_Cons:
  "fillPiece reps (fillOne k v p) = fillPiece ((k, v) # reps) p"
  by (cases p) (auto simp: fillOne_def)

lemma applyReplacements_pieces:
  assumes "list_all (\<lambda>(k, v). tokenShaped k \<and> CHR ''{'' \<notin> set v \<and> CHR ''$'' \<notin> set v) reps"
    and "list_all wellFormedPiece ps"
  shows "applyReplacements reps (templateText ps) = templateText (map (fillPiece reps) ps)"
  using assms
proof (induction reps arbitrary: ps)
  case Nil
  have "map (fillPiece []) ps = ps"
  proof (rule map_idI)
    fix p show "fillPiece [] p = p" by (cases p) simp_all
  qed
  then show ?case by (simp add: applyReplacements_def)
next
  case (Cons r reps)
  obtain k v where r: "r = (k, v)" by (cases r)
  from Cons.prems(1) r have k: "tokenShaped k" and v1: "CHR ''{'' \<notin> set v"
    and v2: "CHR ''$'' \<notin> set v"
    and rest: "list_all (\<lambda>(k, v). tokenShaped k \<and> CHR ''{'' \<notin> set v \<and> CHR ''$'' \<notin> set v) reps"
    by simp_all
  have "applyReplacements (r # reps) (templateText ps)
          = applyReplacements reps (replaceGlobal k v (templateText ps))"
    by (simp add: applyReplacements_def r)
  also have "replaceGlobal k v (templateText ps) = templateText (map (fillOne k v) ps)"
    unfolding replaceGlobal_def using k v2 Cons.prems(2) by (rule replaceFrom_pieces)
  also have "applyReplacements reps (templateText (map (fillOne k v) ps))
          = templateText (map (fillPiece reps) (map (fillOne k v) ps))"
    using rest fillOne_wellFormed [OF v1 Cons.prems(2)] by (rule Cons.IH)
  also have "map (fillPiece reps) (map (fillOne k v) ps) = map (fillPiece (r # reps)) ps"
    by (simp add: fillPiece_Cons r)
  finally show ?case .
qed

lemma replacement_keys_shaped:
  "list_all (\<lambda>(k, v). tokenShaped k) (replacements config)"
  by (simp add: replacements_def tokenShaped_def)

lemma replacements_fill:
  assumes "getProp EXAMPLES k = Own config"
  shows "list_all (\<lambda>(k, v). tokenShaped k \<and> CHR ''{'' \<notin> set v \<and> CHR ''$'' \<notin> set v)
           (replacements config)"
  using replacements_safe [OF assms] replacement_keys_shaped [of config]
  unfolding list_all_iff safeValue_def by blast

lemma renderReadme_pieces:
  assumes "getProp EXAMPLES k = Own config" "list_all wellFormedPiece ps"
  shows "renderReadme config (templateText ps)
           = templateText (map (fillPiece (replacements config)) ps)"
  unfolding renderReadme_def
  using replacements_fill [OF assms(1)] assms(2) by (rule applyReplacements_pieces)

lemma renderReadme_bullets:
  assumes "getProp EXAMPLES k = Own config" "CHR ''{'' \<notin> set a" "CHR ''{'' \<notin> set b"
  shows "renderReadme config (a @ ''{{LEARNING_OBJECTIVES}}'' @ b)
           = a @ joinWith nl (map (\<lambda>obj. ''- '' @ obj) (learningObjectives config)) @ b"
    and "renderReadme config (a @ ''{{FHEVM_FEATURES}}'' @ b)
           = a @ joinWith nl (map (\<lambda>feat. ''- **'' @ feat @ ''**'') (fhevmFeatures config)) @ b"
proof -
  have w1: "list_all wellFormedPiece [Text a, Token ''{{LEARNING_OBJECTIVES}}'', Text b]"
    using assms(2,3) by (simp add: tokenShaped_def)
  have w2: "list_all wellFormedPiece [Text a, Token ''{{FHEVM_FEATURES}}'', Text b]"
    using assms(2,3) by (simp add: tokenShaped_def)
  from renderReadme_pieces [OF assms(1) w1]
  show "renderReadme config (a @ ''{{LEARNING_OBJECTIVES}}'' @ b)
           = a @ joinWith nl (map (\<lambda>obj. ''- '' @ obj) (learningObjectives config)) @ b"
    by (simp add: templateText_def replacements_def)
  from renderReadme_pieces [OF assms(1) w2]
  show "renderReadme config (a @ ''{{FHEVM_FEATURES}}'' @ b)
           = a @ joinWith nl (map (\<lambda>feat. ''- **'' @ feat @ ''**'') (fhevmFeatures config)) @ b"
    by (simp add: templateText_def replacements_def)
qed

lemma apart_sym: "apart K T \<Longrightarrow> apart T K"
  by (simp add: apart_def)

lemma apart_append:
  assumes "apart K T"
  shows "apart (K @ a) (T @ b)"
proof -
  from assms have d: "\<not> prefix K T" "\<not> prefix T K" by (simp_all add: apart_def)
  have "\<not> prefix (K @ a) (T @ b)"
  proof
    assume "prefix (K @ a) (T @ b)"
    then have "prefix K (T @ b)" using append_prefixD by blast
    with disjoint_below(1) [OF d, of b] show False by simp
  qed
  moreover have "\<not> prefix (T @ b) (K @ a)"
  proof
    assume "prefix (T @ b) (K @ a)"
    then have "prefix T (K @ a)" using append_prefixD by blast
    with disjoint_below(1) [OF d(2,1), of a] show False by simp
  qed
  ultimately show ?thesis by (simp add: apart_def)
qed

lemma apart_beneath:
  assumes "apart K T" "prefix T k"
  shows "apart K k"
proof -
  from assms(2) obtain rel where "k = T @ rel" by (auto simp: prefix_def)
  with apart_append [OF assms(1), of "[]" rel] show ?thesis by simp
qed

lemma confined_apart:
  assumes "confined K s s'" "apart K k"
  shows "nodeAt s' k = nodeAt s k"
  using assms(2) confined_outside [OF assms(1), of k] by (simp add: apart_def)

lemma dirsAdded_other:
  assumes "dirsAdded K s s'" "\<not> prefix k K"
  shows "nodeAt s' k = nodeAt s k"
  using assms(1) [unfolded dirsAdded_def, rule_format, of k] assms(2) by auto

lemma dirsAdded_no_file:
  assumes "dirsAdded K s s'" "nodeAt s k \<noteq> Some (File c)"
  shows "nodeAt s' k \<noteq> Some (File c)"
  using assms(1) [unfolded dirsAdded_def, rule_format, of k] assms(2) by auto

lemma confined_no_file:
  assumes "confined K s s'" "\<not> prefix K k" "nodeAt s k \<noteq> Some (File c)"
  shows "nodeAt s' k \<noteq> Some (File c)"
  using assms(1) [unfolded confined_def, rule_format, OF assms(2)] assms(3) by auto

lemma confined_keeps_dir:
  assumes "confined K s s'" "\<not> prefix K k" "nodeAt s k = Some Dir"
  shows "nodeAt s' k = Some Dir"
  using assms(1) [unfolded confined_def, rule_format, OF assms(2)] assms(3) by auto

lemma mirrorsD:
  "mirrors Ks Kd s \<Longrightarrow> nodeAt s (Kd @ rel) = None \<or> nodeAt s (Kd @ rel) = nodeAt s (Ks @ rel)"
  by (simp add: mirrors_def)

lemma noFileAboveD: "noFileAbove K s \<Longrightarrow> prefix k K \<Longrightarrow> nodeAt s k \<noteq> Some (File c)"
  by (simp add: noFileAbove_def)

lemma shallowD:
  "shallow Ks n s \<Longrightarrow> prefix Ks k \<Longrightarrow> nodeAt s k = Some Dir \<Longrightarrow> length k < length Ks + n"
  by (simp add: shallow_def)

lemma mkdirFrom_succeeds:
  assumes "\<And>q c. q \<noteq> [] \<Longrightarrow> prefix q segs \<Longrightarrow> nodeAt s (pre @ q) \<noteq> Some (File c)"
  shows "\<exists>s'. mkdirFrom pre segs s = Ok () s'"
  using assms
proof (induction segs arbitrary: pre s)
  case Nil
  then show ?case by simp
next
  case (Cons seg segs)
  let ?q = "pre @ [seg]"
  have nf: "nodeAt s ?q \<noteq> Some (File c)" for c
    using Cons.prems [of "[seg]" c] by simp
  show ?case
  proof (cases "nodeAt s ?q")
    case None
    let ?s1 = "AList.update ?q Dir s"
    have "\<exists>s'. mkdirFrom ?q segs ?s1 = Ok () s'"
    proof (rule Cons.IH)
      fix q c assume q: "q \<noteq> []" "prefix q segs"
      then have "nodeAt s (pre @ seg # q) \<noteq> Some (File c)"
        using Cons.prems [of "seg # q" c] by simp
      moreover have "nodeAt ?s1 (?q @ q) = nodeAt s (pre @ seg # q)"
        using q(1) by (simp add: nodeAt_update)
      ultimately show "nodeAt ?s1 (?q @ q) \<noteq> Some (File c)" by simp
    qed
    with None show ?thesis by simp
  next
    case (Some v)
    with nf have v: "v = Dir" by (cases v) auto
    have "\<exists>s'. mkdirFrom ?q segs s = Ok () s'"
    proof (rule Cons.IH)
      fix q c assume q: "q \<noteq> []" "prefix q segs"
      then show "nodeAt s (?q @ q) \<noteq> Some (File c)"
        using Cons.prems [of "seg # q" c] by simp
    qed
    with Some v show ?thesis by simp
  qed
qed

lemma ensure_dir_succeeds:
  assumes "wfFs s" "noFileAbove (fsKey (cwd e) dest) s"
  shows "\<exists>s1. (if \<not> existsSync e dest s then mkdirSync e dest s else Ok () s) = Ok () s1
            \<and> nodeAt s1 (fsKey (cwd e) dest) = Some Dir
            \<and> wfFs s1 \<and> dirsAdded (fsKey (cwd e) dest) s s1"
proof -
  let ?K = "fsKey (cwd e) dest"
  have "\<exists>s1. (if \<not> existsSync e dest s then mkdirSync e dest s else Ok () s) = Ok () s1
            \<and> nodeAt s1 ?K = Some Dir"
  proof (cases "existsSync e dest s")
    case True
    then obtain v where v: "nodeAt s ?K = Some v" by (auto simp: existsSync_def)
    with noFileAboveD [OF assms(2), of ?K] have "v = Dir" by (cases v) auto
    with True v show ?thesis by simp
  next
    case False
    then have none: "nodeAt s ?K = None" by (simp add: existsSync_def)
    then have kne: "?K \<noteq> []" by (auto simp: nodeAt_def)
    have "\<exists>s'. mkdirFrom [] ?K s = Ok () s'"
    proof (rule mkdirFrom_succeeds)
      fix q c assume "q \<noteq> []" "prefix q ?K"
      then show "nodeAt s ([] @ q) \<noteq> Some (File c)"
        using noFileAboveD [OF assms(2), of q c] by simp
    qed
    then obtain s1 where m: "mkdirFrom [] ?K s = Ok () s1" by blast
    from mkdirFrom_Ok_dir [OF m kne] have "nodeAt s1 ?K = Some Dir" by simp
    with m False show ?thesis by (simp add: mkdirSync_def)
  qed
  then obtain s1 where
    mk: "(if \<not> existsSync e dest s then mkdirSync e dest s else Ok () s) = Ok () s1"
    and d: "nodeAt s1 ?K = Some Dir" by blast
  from ensure_dir [OF mk assms(1)] mk d show ?thesis by blast
qed

lemma childNames_present:
  assumes "n \<in> set (childNames s k)"
  shows "nodeAt s (k @ [n]) \<noteq> None"
proof -
  from assms obtain q v where m: "(q, v) \<in> set s" and q: "q \<noteq> []" "butlast q = k" "n = last q"
    by (auto simp: childNames_def)
  from q have "q = k @ [n]" using append_butlast_last_id [of q] by simp
  with m have "(k @ [n], v) \<in> set s" by simp
  then have "fst (k @ [n], v) \<in> fst ` set s" by (rule imageI)
  then have "(k @ [n]) \<in> fst ` set s" by simp
  then have "map_of s (k @ [n]) \<noteq> None" by (simp add: map_of_eq_None_iff)
  then show ?thesis by (simp add: nodeAt_def)
qed

lemma copyInv_child:
  assumes inv: "copyInv Ks Kd (Suc n) s"
    and d: "nodeAt s (Ks @ [nm]) = Some Dir"
  shows "copyInv (Ks @ [nm]) (Kd @ [nm]) n s"
proof -
  from inv have wf: "wfFs s" and nf: "noFileAbove Kd s" and sh: "shallow Ks (Suc n) s"
    and mi: "mirrors Ks Kd s" by (simp_all add: copyInv_def)
  have "noFileAbove (Kd @ [nm]) s"
    unfolding noFileAbove_def
  proof (intro allI impI)
    fix k c assume "prefix k (Kd @ [nm])"
    then consider "k = Kd @ [nm]" | "prefix k Kd" by (auto simp: prefix_snoc)
    then show "nodeAt s k \<noteq> Some (File c)"
    proof cases
      case 1
      with mirrorsD [OF mi, of "[nm]"] d show ?thesis by auto
    next
      case 2
      with nf show ?thesis by (rule noFileAboveD)
    qed
  qed
  moreover have "shallow (Ks @ [nm]) n s"
    unfolding shallow_def
  proof (intro allI impI)
    fix k assume k: "prefix (Ks @ [nm]) k \<and> nodeAt s k = Some Dir"
    then have "prefix Ks k" using append_prefixD by blast
    from shallowD [OF sh this] k show "length k < length (Ks @ [nm]) + n" by simp
  qed
  moreover have "mirrors (Ks @ [nm]) (Kd @ [nm]) s"
    unfolding mirrors_def
  proof
    fix rel
    from mirrorsD [OF mi, of "nm # rel"]
    show "nodeAt s ((Kd @ [nm]) @ rel) = None
        \<or> nodeAt s ((Kd @ [nm]) @ rel) = nodeAt s ((Ks @ [nm]) @ rel)" by simp
  qed
  ultimately show ?thesis using wf d by (simp add: copyInv_def)
qed

lemma copyInv_step:
  assumes ap: "apart Ks Kd"
    and inv: "copyInv Ks Kd n s"
    and dd: "nodeAt s Kd = Some Dir"
    and w1: "wfFs s1"
    and c1: "confined (Kd @ [nm]) s s1"
    and m1: "mirrors (Ks @ [nm]) (Kd @ [nm]) s1"
  shows "copyInv Ks Kd n s1"
    and "nodeAt s1 Kd = Some Dir"
    and "\<And>k. prefix Ks k \<Longrightarrow> nodeAt s1 k = nodeAt s k"
proof -
  from inv have sd: "nodeAt s Ks = Some Dir" and nf: "noFileAbove Kd s"
    and sh: "shallow Ks n s" and mi: "mirrors Ks Kd s" by (simp_all add: copyInv_def)
  show src: "nodeAt s1 k = nodeAt s k" if "prefix Ks k" for k
  proof (rule confined_apart [OF c1])
    from that obtain rel where "k = Ks @ rel" by (auto simp: prefix_def)
    with apart_append [OF apart_sym [OF ap], of "[nm]" rel] show "apart (Kd @ [nm]) k" by simp
  qed
  have np: "\<not> prefix (Kd @ [nm]) k" if "prefix k Kd" for k
  proof
    assume "prefix (Kd @ [nm]) k"
    from this that have "prefix (Kd @ [nm]) Kd" by (rule prefix_order.trans)
    then show False by simp
  qed
  have "\<not> prefix (Kd @ [nm]) Kd" by simp
  from confined_keeps_dir [OF c1 this dd]
  show d1: "nodeAt s1 Kd = Some Dir" .
  have nf1: "noFileAbove Kd s1"
    unfolding noFileAbove_def
  proof (intro allI impI)
    fix k c assume k: "prefix k Kd"
    show "nodeAt s1 k \<noteq> Some (File c)"
      using c1 np [OF k] noFileAboveD [OF nf k] by (rule confined_no_file)
  qed
  have sh1: "shallow Ks n s1"
    unfolding shallow_def
  proof (intro allI impI)
    fix k assume k: "prefix Ks k \<and> nodeAt s1 k = Some Dir"
    then have "nodeAt s k = Some Dir" using src [of k] by simp
    with shallowD [OF sh] k show "length k < length Ks + n" by blast
  qed
  have mi1: "mirrors Ks Kd s1"
    unfolding mirrors_def
  proof
    fix rel
    show "nodeAt s1 (Kd @ rel) = None \<or> nodeAt s1 (Kd @ rel) = nodeAt s1 (Ks @ rel)"
    proof (cases rel)
      case Nil
      have "nodeAt s1 Ks = Some Dir" using src [of Ks] sd by simp
      with d1 Nil show ?thesis by simp
    next
      case (Cons m rel')
      show ?thesis
      proof (cases "m = nm")
        case True
        from mirrorsD [OF m1, of rel'] show ?thesis unfolding Cons True by simp
      next
        case False
        have "apart (Kd @ [nm]) (Kd @ m # rel')" using False by (simp add: apart_def)
        from confined_apart [OF c1 this]
        have a: "nodeAt s1 (Kd @ rel) = nodeAt s (Kd @ rel)" unfolding Cons .
        have b: "nodeAt s1 (Ks @ rel) = nodeAt s (Ks @ rel)" by (rule src) simp
        from mirrorsD [OF mi, of rel] show ?thesis unfolding a b .
      qed
    qed
  qed
  from w1 sd src [of Ks] nf1 sh1 mi1 show "copyInv Ks Kd n s1" by (simp add: copyInv_def)
qed

lemma copy_entry_succeeds:
  assumes P: "\<And>src dest s. src \<noteq> [] \<Longrightarrow> dest \<noteq> [] \<Longrightarrow>
        apart (fsKey (cwd e) src) (fsKey (cwd e) dest) \<Longrightarrow>
        copyInv (fsKey (cwd e) src) (fsKey (cwd e) dest) n s \<Longrightarrow>
        \<exists>s'. copyDirectory e n src dest s = Ok () s'
            \<and> mirrors (fsKey (cwd e) src) (fsKey (cwd e) dest) s'
            \<and> nodeAt s' (fsKey (cwd e) dest) = Some Dir"
    and ne: "src \<noteq> []" "dest \<noteq> []"
    and ap: "apart (fsKey (cwd e) src) (fsKey (cwd e) dest)"
    and inv: "copyInv (fsKey (cwd e) src) (fsKey (cwd e) dest) (Suc n) s"
    and dd: "nodeAt s (fsKey (cwd e) dest) = Some Dir"
    and sn: "simpleName nm"
    and pr: "nodeAt s (fsKey (cwd e) src @ [nm]) \<noteq> None"
    and fl: "d = (nodeAt s (fsKey (cwd e) src @ [nm]) = Some Dir)"
  shows "\<exists>s1. (if d then copyDirectory e n (path_join [src, nm]) (path_join [dest, nm]) s
               else copyFileSync e (path_join [src, nm]) (path_join [dest, nm]) s) = Ok () s1
            \<and> wfFs s1
            \<and> confined (fsKey (cwd e) dest @ [nm]) s s1
            \<and> mirrors (fsKey (cwd e) src @ [nm]) (fsKey (cwd e) dest @ [nm]) s1
            \<and> nodeAt s1 (fsKey (cwd e) dest @ [nm]) = nodeAt s (fsKey (cwd e) src @ [nm])"
proof -
  let ?Ks = "fsKey (cwd e) src" and ?Kd = "fsKey (cwd e) dest"
  let ?step = "if d then copyDirectory e n (path_join [src, nm]) (path_join [dest, nm]) s
               else copyFileSync e (path_join [src, nm]) (path_join [dest, nm]) s"
  from inv have wf: "wfFs s" and mi: "mirrors ?Ks ?Kd s" by (simp_all add: copyInv_def)
  have ks: "fsKey (cwd e) (path_join [src, nm]) = ?Ks @ [nm]" using ne(1) sn by (rule joined_key)
  have kd: "fsKey (cwd e) (path_join [dest, nm]) = ?Kd @ [nm]" using ne(2) sn by (rule joined_key)
  note g = entry_step_good [OF ne(2) wf sn, of e d n src]
  have ap': "apart (?Ks @ [nm]) (?Kd @ [nm])" using ap by (rule apart_append)
  have "\<exists>s1. ?step = Ok () s1 \<and> mirrors (?Ks @ [nm]) (?Kd @ [nm]) s1
            \<and> nodeAt s1 (?Kd @ [nm]) = nodeAt s (?Ks @ [nm])"
  proof (cases d)
    case True
    with fl have sd: "nodeAt s (?Ks @ [nm]) = Some Dir" by simp
    note P [of "path_join [src, nm]" "path_join [dest, nm]" s,
        OF path_join_nonempty path_join_nonempty, unfolded ks kd,
        OF ap' copyInv_child [OF inv sd]]
    then show ?thesis using True sd by auto
  next
    case False
    with fl pr obtain c where fc: "nodeAt s (?Ks @ [nm]) = Some (File c)"
      by (cases "nodeAt s (?Ks @ [nm])"; cases "the (nodeAt s (?Ks @ [nm]))") auto
    from mirrorsD [OF mi, of "[nm]"] fc
    have nd: "nodeAt s (?Kd @ [nm]) \<noteq> Some Dir" by auto
    let ?s1 = "AList.update (?Kd @ [nm]) (File c) s"
    have r: "readFileSync e (path_join [src, nm]) s = Ok c s"
      by (simp add: readFileSync_def ks fc)
    have w: "writeFileSync e (path_join [dest, nm]) c s = Ok () ?s1"
      using nd dd by (auto simp: writeFileSync_def kd Let_def split: option.splits node.splits)
    have st: "?step = Ok () ?s1"
      using False by (simp add: copyFileSync_def bindO_def r w)
    have differ: "?Ks @ [nm] @ rel \<noteq> ?Kd @ [nm]" for rel
    proof
      assume "?Ks @ [nm] @ rel = ?Kd @ [nm]"
      then have "prefix (?Ks @ [nm]) (?Kd @ [nm])" by (metis append.assoc prefixI)
      with ap' show False by (simp add: apart_def)
    qed
    have "mirrors (?Ks @ [nm]) (?Kd @ [nm]) ?s1"
      unfolding mirrors_def
    proof
      fix rel
      have a: "nodeAt ?s1 ((?Ks @ [nm]) @ rel) = nodeAt s ((?Ks @ [nm]) @ rel)"
        using differ [of rel] by (simp add: nodeAt_update)
      show "nodeAt ?s1 ((?Kd @ [nm]) @ rel) = None
          \<or> nodeAt ?s1 ((?Kd @ [nm]) @ rel) = nodeAt ?s1 ((?Ks @ [nm]) @ rel)"
      proof (cases "rel = []")
        case True
        with a fc show ?thesis by (simp add: nodeAt_update)
      next
        case False
        then have "nodeAt ?s1 ((?Kd @ [nm]) @ rel) = nodeAt s ((?Kd @ [nm]) @ rel)"
          by (simp add: nodeAt_update)
        with a mirrorsD [OF mi, of "nm # rel"] show ?thesis by simp
      qed
    qed
    moreover have "nodeAt ?s1 (?Kd @ [nm]) = nodeAt s (?Ks @ [nm])"
      using fc by (simp add: nodeAt_update)
    ultimately show ?thesis using st by blast
  qed
  then obtain s1 where st: "?step = Ok () s1"
    and m1: "mirrors (?Ks @ [nm]) (?Kd @ [nm]) s1"
    and n1: "nodeAt s1 (?Kd @ [nm]) = nodeAt s (?Ks @ [nm])" by blast
  from g have "wfFs s1" "confined (?Kd @ [nm]) s s1" unfolding st good_def by simp_all
  with st m1 n1 show ?thesis by blast
qed

lemma copyEntries_succeeds:
  assumes P: "\<And>src dest s. src \<noteq> [] \<Longrightarrow> dest \<noteq> [] \<Longrightarrow>
        apart (fsKey (cwd e) src) (fsKey (cwd e) dest) \<Longrightarrow>
        copyInv (fsKey (cwd e) src) (fsKey (cwd e) dest) n s \<Longrightarrow>
        \<exists>s'. copyDirectory e n src dest s = Ok () s'
            \<and> mirrors (fsKey (cwd e) src) (fsKey (cwd e) dest) s'
            \<and> nodeAt s' (fsKey (cwd e) dest) = Some Dir"
    and ne: "src \<noteq> []" "dest \<noteq> []"
    and ap: "apart (fsKey (cwd e) src) (fsKey (cwd e) dest)"
    and inv: "copyInv (fsKey (cwd e) src) (fsKey (cwd e) dest) (Suc n) s"
    and dd: "nodeAt s (fsKey (cwd e) dest) = Some Dir"
    and ents: "\<forall>(nm, d) \<in> set entries. simpleName nm
                 \<and> nodeAt s (fsKey (cwd e) src @ [nm]) \<noteq> None
                 \<and> d = (nodeAt s (fsKey (cwd e) src @ [nm]) = Some Dir)"
    and dist: "distinct (map fst entries)"
  shows "\<exists>s'. copyEntries e n src dest entries s = Ok () s'
            \<and> copyInv (fsKey (cwd e) src) (fsKey (cwd e) dest) (Suc n) s'
            \<and> nodeAt s' (fsKey (cwd e) dest) = Some Dir
            \<and> (\<forall>(nm, d) \<in> set entries.
                  nodeAt s' (fsKey (cwd e) dest @ [nm]) = nodeAt s (fsKey (cwd e) src @ [nm]))"
  using inv dd ents dist
proof (induction entries arbitrary: s)
  case Nil
  then show ?case by simp
next
  case (Cons entry entries)
  let ?Ks = "fsKey (cwd e) src" and ?Kd = "fsKey (cwd e) dest"
  obtain nm d where entry: "entry = (nm, d)" by (cases entry)
  from Cons.prems(3) entry have sn: "simpleName nm" and pr: "nodeAt s (?Ks @ [nm]) \<noteq> None"
    and fl: "d = (nodeAt s (?Ks @ [nm]) = Some Dir)" by simp_all
  from Cons.prems(4) entry have nin: "nm \<notin> fst ` set entries"
    and dist': "distinct (map fst entries)" by simp_all
  from copy_entry_succeeds [OF P ne ap Cons.prems(1,2) sn pr fl] obtain s1 where
    st: "(if d then copyDirectory e n (path_join [src, nm]) (path_join [dest, nm]) s
          else copyFileSync e (path_join [src, nm]) (path_join [dest, nm]) s) = Ok () s1"
    and w1: "wfFs s1" and c1: "confined (?Kd @ [nm]) s s1"
    and m1: "mirrors (?Ks @ [nm]) (?Kd @ [nm]) s1"
    and n1: "nodeAt s1 (?Kd @ [nm]) = nodeAt s (?Ks @ [nm])"
    by blast
  note step = copyInv_step [OF ap Cons.prems(1,2) w1 c1 m1]
  have ents1: "\<forall>(nm, d) \<in> set entries. simpleName nm
                 \<and> nodeAt s1 (?Ks @ [nm]) \<noteq> None
                 \<and> d = (nodeAt s1 (?Ks @ [nm]) = Some Dir)"
  proof (intro ballI, clarify)
    fix a b assume m: "(a, b) \<in> set entries"
    have "nodeAt s1 (?Ks @ [a]) = nodeAt s (?Ks @ [a])" by (rule step(3)) simp
    with Cons.prems(3) m
    show "simpleName a \<and> nodeAt s1 (?Ks @ [a]) \<noteq> None \<and> b = (nodeAt s1 (?Ks @ [a]) = Some Dir)"
      by auto
  qed
  from Cons.IH [OF step(1,2) ents1 dist'] obtain s' where
    rest: "copyEntries e n src dest entries s1 = Ok () s'"
    and inv': "copyInv ?Ks ?Kd (Suc n) s'"
    and dd': "nodeAt s' ?Kd = Some Dir"
    and cp: "\<forall>(nm, d) \<in> set entries. nodeAt s' (?Kd @ [nm]) = nodeAt s1 (?Ks @ [nm])"
    by blast
  have run: "copyEntries e n src dest (entry # entries) s = Ok () s'"
    unfolding entry copyEntries.simps Let_def using st rest by (simp add: bindO_def)
  have names: "\<forall>(n, d) \<in> set entries. simpleName n" using ents1 by auto
  have first: "nodeAt s' (?Kd @ [nm]) = nodeAt s (?Ks @ [nm])"
    using copyEntries_sibling [OF ne(2) w1 names nin rest] n1 by simp
  have others: "\<forall>(nm, d) \<in> set entries. nodeAt s' (?Kd @ [nm]) = nodeAt s (?Ks @ [nm])"
  proof (intro ballI, clarify)
    fix a b assume m: "(a, b) \<in> set entries"
    have "nodeAt s1 (?Ks @ [a]) = nodeAt s (?Ks @ [a])" by (rule step(3)) simp
    with cp m show "nodeAt s' (?Kd @ [a]) = nodeAt s (?Ks @ [a])" by auto
  qed
  from run inv' dd' first others show ?case unfolding entry by simp
qed

lemma copyDirectory_succeeds:
  assumes "src \<noteq> []" "dest \<noteq> []"
    and "apart (fsKey (cwd e) src) (fsKey (cwd e) dest)"
    and "copyInv (fsKey (cwd e) src) (fsKey (cwd e) dest) fuel s"
  shows "\<exists>s'. copyDirectory e fuel src dest s = Ok () s'
            \<and> mirrors (fsKey (cwd e) src) (fsKey (cwd e) dest) s'
            \<and> nodeAt s' (fsKey (cwd e) dest) = Some Dir
            \<and> (\<forall>nm. nodeAt s (fsKey (cwd e) src @ [nm]) \<noteq> None \<longrightarrow>
                  nodeAt s' (fsKey (cwd e) dest @ [nm]) = nodeAt s (fsKey (cwd e) src @ [nm]))"
  using assms
proof (induction fuel arbitrary: src dest s)
  case 0
  from 0(4) have "nodeAt s (fsKey (cwd e) src) = Some Dir" "shallow (fsKey (cwd e) src) 0 s"
    by (simp_all add: copyInv_def)
  from shallowD [OF this(2) _ this(1)] show ?case by simp
next
  case (Suc n)
  let ?Ks = "fsKey (cwd e) src" and ?Kd = "fsKey (cwd e) dest"
  note ap = Suc.prems(3)
  from Suc.prems(4) have wf: "wfFs s" and sd: "nodeAt s ?Ks = Some Dir"
    and nf: "noFileAbove ?Kd s" and sh: "shallow ?Ks (Suc n) s" and mi: "mirrors ?Ks ?Kd s"
    by (simp_all add: copyInv_def)
  from ensure_dir_succeeds [OF wf nf] obtain s1 where
    mk: "(if \<not> existsSync e dest s then mkdirSync e dest s else Ok () s) = Ok () s1"
    and d1: "nodeAt s1 ?Kd = Some Dir" and w1: "wfFs s1" and a1: "dirsAdded ?Kd s s1"
    by blast
  have src1: "nodeAt s1 k = nodeAt s k" if "prefix ?Ks k" for k
  proof (rule dirsAdded_other [OF a1])
    show "\<not> prefix k ?Kd"
    proof
      assume "prefix k ?Kd"
      with that have "prefix ?Ks ?Kd" by (rule prefix_order.trans)
      with ap show False by (simp add: apart_def)
    qed
  qed
  have nf1: "noFileAbove ?Kd s1"
    unfolding noFileAbove_def
  proof (intro allI impI)
    fix k c assume "prefix k ?Kd"
    from dirsAdded_no_file [OF a1 noFileAboveD [OF nf this]]
    show "nodeAt s1 k \<noteq> Some (File c)" .
  qed
  have sh1: "shallow ?Ks (Suc n) s1"
    unfolding shallow_def
  proof (intro allI impI)
    fix k assume k: "prefix ?Ks k \<and> nodeAt s1 k = Some Dir"
    then have "nodeAt s k = Some Dir" using src1 [of k] by simp
    with shallowD [OF sh] k show "length k < length ?Ks + Suc n" by blast
  qed
  have mi1: "mirrors ?Ks ?Kd s1"
    unfolding mirrors_def
  proof
    fix rel
    show "nodeAt s1 (?Kd @ rel) = None \<or> nodeAt s1 (?Kd @ rel) = nodeAt s1 (?Ks @ rel)"
    proof (cases "rel = []")
      case True
      with d1 sd src1 [of ?Ks] show ?thesis by simp
    next
      case False
      then have "\<not> prefix (?Kd @ rel) ?Kd" by simp
      from dirsAdded_other [OF a1 this] src1 [of "?Ks @ rel"] mirrorsD [OF mi, of rel]
      show ?thesis by simp
    qed
  qed
  have inv1: "copyInv ?Ks ?Kd (Suc n) s1"
    using w1 sd src1 [of ?Ks] nf1 sh1 mi1 by (simp add: copyInv_def)
  let ?entries = "map (\<lambda>n. (n, nodeAt s1 (?Ks @ [n]) = Some Dir)) (childNames s1 ?Ks)"
  have rd: "readdirSync e src s1 = Ok ?entries s1"
    using sd src1 [of ?Ks] by (simp add: readdirSync_def Let_def)
  have ents: "\<forall>(nm, d) \<in> set ?entries. simpleName nm
                 \<and> nodeAt s1 (?Ks @ [nm]) \<noteq> None
                 \<and> d = (nodeAt s1 (?Ks @ [nm]) = Some Dir)"
    using childNames_simple [OF w1] childNames_present by auto
  have dist: "distinct (map fst ?entries)"
    by (simp add: o_def childNames_def)
  have P: "\<exists>s'. copyDirectory e n src dest s = Ok () s'
            \<and> mirrors (fsKey (cwd e) src) (fsKey (cwd e) dest) s'
            \<and> nodeAt s' (fsKey (cwd e) dest) = Some Dir"
    if "src \<noteq> []" "dest \<noteq> []" "apart (fsKey (cwd e) src) (fsKey (cwd e) dest)"
      "copyInv (fsKey (cwd e) src) (fsKey (cwd e) dest) n s" for src dest s
    using Suc.IH [OF that] by blast
  from copyEntries_succeeds [OF P Suc.prems(1,2) ap inv1 d1 ents dist] obtain s' where
    ce: "copyEntries e n src dest ?entries s1 = Ok () s'"
    and inv': "copyInv ?Ks ?Kd (Suc n) s'"
    and dd': "nodeAt s' ?Kd = Some Dir"
    and cp: "\<forall>(nm, d) \<in> set ?entries. nodeAt s' (?Kd @ [nm]) = nodeAt s1 (?Ks @ [nm])"
    by blast
  have run: "copyDirectory e (Suc n) src dest s = Ok () s'"
    unfolding copyDirectory.simps using mk rd ce by (simp add: bindO_def)
  have kids: "nodeAt s' (?Kd @ [nm]) = nodeAt s (?Ks @ [nm])"
    if "nodeAt s (?Ks @ [nm]) \<noteq> None" for nm
  proof -
    have e1: "nodeAt s1 (?Ks @ [nm]) = nodeAt s (?Ks @ [nm])" by (rule src1) simp
    with that obtain v where "nodeAt s1 (?Ks @ [nm]) = Some v" by auto
    from nodeAt_childNames [OF this]
    have "(nm, nodeAt s1 (?Ks @ [nm]) = Some Dir) \<in> set ?entries" by (simp add: image_iff)
    with cp have "nodeAt s' (?Kd @ [nm]) = nodeAt s1 (?Ks @ [nm])" by blast
    with e1 show ?thesis by simp
  qed
  from inv' have "mirrors ?Ks ?Kd s'" by (simp add: copyInv_def)
  with run dd' kids show ?case by blast
qed

lemma sameApart_refl: "sameApart K s s"
  by (simp add: sameApart_def)

lemma sameApart_trans: "sameApart K s s1 \<Longrightarrow> sameApart K s1 s2 \<Longrightarrow> sameApart K s s2"
  by (simp add: sameApart_def)

lemma sameApartD: "sameApart K s s' \<Longrightarrow> apart K k \<Longrightarrow> nodeAt s' k = nodeAt s k"
  by (simp add: sameApart_def)

lemma confined_sameApart:
  assumes "confined (K @ rel) s s'"
  shows "sameApart K s s'"
  unfolding sameApart_def
proof (intro allI impI)
  fix k assume "apart K k"
  from apart_append [OF this, of rel "[]"] have "apart (K @ rel) k" by simp
  with assms show "nodeAt s' k = nodeAt s k" by (rule confined_apart)
qed

lemma dirsAdded_sameApart:
  assumes "dirsAdded K s s'"
  shows "sameApart K s s'"
  unfolding sameApart_def
proof (intro allI impI)
  fix k assume "apart K k"
  then have "\<not> prefix k K" by (simp add: apart_def)
  with assms show "nodeAt s' k = nodeAt s k" by (rule dirsAdded_other)
qed

lemma templateFacts_transfer:
  assumes sa: "sameApart K s s'"
    and aT: "apart K (fsKey (cwd e) (templateDirOf e))"
    and aR: "apart K (fsKey (cwd e) (templateReadmePath e))"
    and tf: "templateFacts e fuel s"
  shows "templateFacts e fuel s'"
proof -
  let ?T = "fsKey (cwd e) (templateDirOf e)"
  have below: "nodeAt s' k = nodeAt s k" if "prefix ?T k" for k
    using sa apart_beneath [OF aT that] by (rule sameApartD)
  have r: "nodeAt s' (fsKey (cwd e) (templateReadmePath e))
             = nodeAt s (fsKey (cwd e) (templateReadmePath e))"
    using sa aR by (rule sameApartD)
  from tf have sh: "shallow ?T fuel s" by (simp add: templateFacts_def)
  have "shallow ?T fuel s'"
    unfolding shallow_def
  proof (intro allI impI)
    fix k assume k: "prefix ?T k \<and> nodeAt s' k = Some Dir"
    then have "nodeAt s k = Some Dir" using below [of k] by simp
    with shallowD [OF sh] k show "length k < length ?T + fuel" by blast
  qed
  with tf show ?thesis
    unfolding templateFacts_def manifestReady_def readmeTemplateReady_def r
    by (simp add: below)
qed

lemma sourcesReady_transfer:
  assumes sa: "sameApart K s s'"
    and pl: "placedApart e config K"
    and sr: "sourcesReady e config s"
  shows "sourcesReady e config s'"
proof -
  let ?T = "fsKey (cwd e) (templateDirOf e)"
  from pl have aT: "apart K ?T"
    and aC: "apart K (fsKey (cwd e) (contractSourceOf e config))"
    and aU: "apart K (fsKey (cwd e) (testSourceOf e config))"
    by (simp_all add: placedApart_def)
  have below: "nodeAt s' (?T @ rel) = nodeAt s (?T @ rel)" for rel
    using sa apart_beneath [OF aT, of "?T @ rel"] by (intro sameApartD) simp_all
  from sr show ?thesis
    unfolding sourcesReady_def overlayReady_def sameApartD [OF sa aC] sameApartD [OF sa aU]
      below .
qed

lemma copyIfExists_succeeds:
  assumes "nodeAt s (fsKey (cwd e) src) \<noteq> Some Dir"
    and "\<And>c. nodeAt s (fsKey (cwd e) src) = Some (File c) \<Longrightarrow>
           fsKey (cwd e) dest \<noteq> []
         \<and> nodeAt s (butlast (fsKey (cwd e) dest)) = Some Dir
         \<and> nodeAt s (fsKey (cwd e) dest) \<noteq> Some Dir"
  shows "\<exists>s'. copyIfExists e src dest s = Ok () s'"
proof (cases "nodeAt s (fsKey (cwd e) src)")
  case None
  then show ?thesis by (simp add: copyIfExists_def existsSync_def)
next
  case (Some v)
  with assms(1) obtain c where c: "nodeAt s (fsKey (cwd e) src) = Some (File c)"
    by (cases v) auto
  from assms(2) [OF c] show ?thesis
    by (auto simp: copyIfExists_def existsSync_def copyFileSync_def readFileSync_def c bindO_def
        writeFileSync_def Let_def split: option.splits node.splits)
qed

lemma apart_siblings: "n \<noteq> a \<Longrightarrow> apart (K @ a # as) (K @ n # rel)"
  by (auto simp: apart_def)

lemma writeFileSync_succeeds:
  assumes "fsKey (cwd e) p = K @ [n]" "nodeAt s K = Some Dir" "nodeAt s (K @ [n]) \<noteq> Some Dir"
  shows "writeFileSync e p c s = Ok () (AList.update (K @ [n]) (File c) s)"
  using assms(2,3) unfolding writeFileSync_def assms(1) Let_def
  by (auto split: option.splits node.splits)

lemma overlay_succeeds:
  assumes wf: "wfFs s"
    and key: "fsKey (cwd e) dest = K @ [sub, file]"
    and ov: "overlayReady s (fsKey (cwd e) src) T sub file"
    and dir: "nodeAt s (T @ [sub]) = Some Dir \<Longrightarrow> nodeAt s (K @ [sub]) = Some Dir"
    and nod: "nodeAt s (T @ [sub, file]) \<noteq> Some Dir \<Longrightarrow> nodeAt s (K @ [sub, file]) \<noteq> Some Dir"
  shows "\<exists>s'. copyIfExists e src dest s = Ok () s' \<and> wfFs s' \<and> confined (K @ [sub, file]) s s'"
proof -
  have "\<exists>s'. copyIfExists e src dest s = Ok () s'"
  proof (rule copyIfExists_succeeds)
    show "nodeAt s (fsKey (cwd e) src) \<noteq> Some Dir"
      using ov by (auto simp: overlayReady_def)
    fix c assume "nodeAt s (fsKey (cwd e) src) = Some (File c)"
    with ov have "nodeAt s (T @ [sub]) = Some Dir" "nodeAt s (T @ [sub, file]) \<noteq> Some Dir"
      by (simp_all add: overlayReady_def)
    with dir nod have "nodeAt s (K @ [sub]) = Some Dir" "nodeAt s (K @ [sub, file]) \<noteq> Some Dir"
      by blast+
    then show "fsKey (cwd e) dest \<noteq> []
         \<and> nodeAt s (butlast (fsKey (cwd e) dest)) = Some Dir
         \<and> nodeAt s (fsKey (cwd e) dest) \<noteq> Some Dir"
      unfolding key by (simp add: butlast_append)
  qed
  then obtain s' where st: "copyIfExists e src dest s = Ok () s'" by blast
  from step_good [OF good_copyIfExists [OF wf] st] st show ?thesis unfolding key by blast
qed

lemma manifestReadyD:
  assumes "manifestReady e s"
  shows "\<exists>m j j'. nodeAt s (fsKey (cwd e) (templateDirOf e) @ [''package.json'']) = Some (File m)
           \<and> parseJSON e m = Some j \<and> updateManifest config j = Some j'"
proof (cases "nodeAt s (fsKey (cwd e) (templateDirOf e) @ [''package.json''])")
  case None
  with assms show ?thesis by (simp add: manifestReady_def)
next
  case (Some v)
  show ?thesis
  proof (cases v)
    case Dir
    with Some assms show ?thesis by (simp add: manifestReady_def)
  next
    case (File m)
    show ?thesis
    proof (cases "parseJSON e m")
      case None
      with Some File assms show ?thesis by (simp add: manifestReady_def)
    next
      case pj: (Some j)
      from assms Some File pj have "\<exists>j'. updateManifest config j = Some j'"
        by (cases j) (simp_all add: manifestReady_def updateManifest_def)
      with Some File pj show ?thesis by simp
    qed
  qed
qed

lemma readmeTemplateReadyD:
  assumes "readmeTemplateReady e s"
  shows "\<exists>t. nodeAt s (fsKey (cwd e) (templateReadmePath e)) = Some (File t)"
    and "nodeAt s (fsKey (cwd e) (templateDirOf e) @ [''README.md'']) \<noteq> Some Dir"
proof -
  from assms show "nodeAt s (fsKey (cwd e) (templateDirOf e) @ [''README.md'']) \<noteq> Some Dir"
    by (simp add: readmeTemplateReady_def)
  show "\<exists>t. nodeAt s (fsKey (cwd e) (templateReadmePath e)) = Some (File t)"
  proof (cases "nodeAt s (fsKey (cwd e) (templateReadmePath e))")
    case None
    with assms show ?thesis by (simp add: readmeTemplateReady_def)
  next
    case (Some v)
    with assms show ?thesis by (cases v) (simp_all add: readmeTemplateReady_def)
  qed
qed

lemma createExample_succeeds:
  assumes own: "getProp EXAMPLES exampleName = Own config"
    and wf: "wfFs s"
    and pl: "placedApart e config (fsKey (cwd e) (exampleDirOf e outputDir config))"
    and nf: "noFileAbove (fsKey (cwd e) (exampleDirOf e outputDir config)) s"
    and mi: "mirrors (fsKey (cwd e) (templateDirOf e))
               (fsKey (cwd e) (exampleDirOf e outputDir config)) s"
    and tf: "templateFacts e fuel s"
    and sr: "sourcesReady e config s"
  shows "\<exists>s'. createExample e fuel exampleName outputDir s
                = Ok (exampleDirOf e outputDir config) s'"
proof -
  let ?p = "exampleDirOf e outputDir config"
  let ?K = "fsKey (cwd e) ?p"
  let ?T = "fsKey (cwd e) (templateDirOf e)"
  let ?R = "fsKey (cwd e) (templateReadmePath e)"
  let ?cf = "contractFile config" and ?tf = "testFile config"
  note pne = exampleDirOf_nonempty [of e outputDir config]
  note keys = example_keys [OF own pne, of e]
  have tne: "templateDirOf e \<noteq> []" unfolding templateDirOf_def by (rule path_join_nonempty)
  from pl have aT: "apart ?K ?T" and aR: "apart ?K ?R" by (simp_all add: placedApart_def)
  from tf have tD: "nodeAt s ?T = Some Dir" and sh: "shallow ?T fuel s"
    and mr: "manifestReady e s" and rr: "readmeTemplateReady e s"
    by (simp_all add: templateFacts_def)
  from manifestReadyD [OF mr, of config] obtain m j j' where
    man: "nodeAt s (?T @ [''package.json'']) = Some (File m)"
    and pj: "parseJSON e m = Some j" and up: "updateManifest config j = Some j'"
    by blast
  from readmeTemplateReadyD [OF rr] obtain t where rt: "nodeAt s ?R = Some (File t)"
    and nrd: "nodeAt s (?T @ [''README.md'']) \<noteq> Some Dir"
    by blast
  have inv: "copyInv ?T ?K fuel s" using wf tD nf sh mi by (simp add: copyInv_def)
  from copyDirectory_succeeds [OF tne pne apart_sym [OF aT] inv] obtain s1 where
    st0: "copyDirectory e fuel (templateDirOf e) ?p s = Ok () s1"
    and m1: "mirrors ?T ?K s1" and d1: "nodeAt s1 ?K = Some Dir"
    and kids: "\<And>nm. nodeAt s (?T @ [nm]) \<noteq> None \<Longrightarrow>
                 nodeAt s1 (?K @ [nm]) = nodeAt s (?T @ [nm])"
    by blast
  note g0 = step_good [OF good_copyDirectory [OF pne wf] st0]
  have sa1: "sameApart ?K s s1" using confined_sameApart [of ?K "[]"] g0(2) by simp
  have T1: "nodeAt s1 (?T @ rel) = nodeAt s (?T @ rel)" for rel
    using sa1 apart_beneath [OF aT, of "?T @ rel"] by (intro sameApartD) simp_all
  from sourcesReady_transfer [OF sa1 pl sr]
  have o1: "overlayReady s1 (fsKey (cwd e) (contractSourceOf e config)) ?T ''contracts'' ?cf"
    by (simp add: sourcesReady_def)
  have dirs1: "nodeAt s1 (?K @ [sub]) = Some Dir" if "nodeAt s1 (?T @ [sub]) = Some Dir" for sub
    using kids [of sub] that unfolding T1 by simp
  have nod1: "nodeAt s1 (?K @ rel) \<noteq> Some Dir" if "nodeAt s1 (?T @ rel) \<noteq> Some Dir" for rel
    using mirrorsD [OF m1, of rel] that by auto
  from overlay_succeeds [OF g0(1) keys(1) o1 dirs1 nod1] obtain s2 where
    st1: "copyIfExists e (contractSourceOf e config) (path_join [?p, ''contracts'', ?cf]) s1 = Ok () s2"
    and w2: "wfFs s2" and c2: "confined (?K @ [''contracts'', ?cf]) s1 s2"
    by blast
  have sa2: "sameApart ?K s s2"
    using sa1 confined_sameApart [OF c2] by (rule sameApart_trans)
  have T2: "nodeAt s2 (?T @ rel) = nodeAt s (?T @ rel)" for rel
    using sa2 apart_beneath [OF aT, of "?T @ rel"] by (intro sameApartD) simp_all
  have other2: "nodeAt s2 (?K @ n # rel) = nodeAt s1 (?K @ n # rel)" if "n \<noteq> ''contracts''" for n rel
    using c2 apart_siblings [OF that] by (rule confined_apart)
  from sourcesReady_transfer [OF sa2 pl sr]
  have o2: "overlayReady s2 (fsKey (cwd e) (testSourceOf e config)) ?T ''test'' ?tf"
    by (simp add: sourcesReady_def)
  have dirs2: "nodeAt s2 (?K @ [''test'']) = Some Dir" if "nodeAt s2 (?T @ [''test'']) = Some Dir"
    using dirs1 [of "''test''"] that other2 [of "''test''" "[]"] unfolding T1 T2 by simp
  have nod2: "nodeAt s2 (?K @ [''test'', ?tf]) \<noteq> Some Dir"
    if "nodeAt s2 (?T @ [''test'', ?tf]) \<noteq> Some Dir"
    using nod1 [of "[''test'', ?tf]"] that other2 [of "''test''" "[?tf]"] unfolding T1 T2 by simp
  from overlay_succeeds [OF w2 keys(2) o2 dirs2 nod2] obtain s3 where
    st2: "copyIfExists e (testSourceOf e config) (path_join [?p, ''test'', ?tf]) s2 = Ok () s3"
    and w3: "wfFs s3" and c3: "confined (?K @ [''test'', ?tf]) s2 s3"
    by blast
  have sa3: "sameApart ?K s s3"
    using sa2 confined_sameApart [OF c3] by (rule sameApart_trans)
  have other3: "nodeAt s3 (?K @ n # rel) = nodeAt s2 (?K @ n # rel)" if "n \<noteq> ''test''" for n rel
    using c3 apart_siblings [OF that] by (rule confined_apart)
  have d2: "nodeAt s2 ?K = Some Dir"
    using c2 _ d1 by (rule confined_keeps_dir) simp
  have d3: "nodeAt s3 ?K = Some Dir"
    using c3 _ d2 by (rule confined_keeps_dir) simp
  have r3: "nodeAt s3 ?R = Some (File t)"
    using sameApartD [OF sa3 aR] rt by simp
  have "nodeAt s1 (?K @ [''README.md'']) \<noteq> Some Dir"
    using nod1 [of "[''README.md'']"] nrd unfolding T1 by simp
  then have nr3: "nodeAt s3 (?K @ [''README.md'']) \<noteq> Some Dir"
    using other3 [of "''README.md''" "[]"] other2 [of "''README.md''" "[]"] by simp
  let ?s4 = "AList.update (?K @ [''README.md'']) (File (renderReadme config t)) s3"
  have st3: "generateReadme e config (path_join [?p, ''README.md'']) s3 = Ok () ?s4"
    unfolding generateReadme_def Let_def templateReadmePath_def [symmetric]
    by (simp add: readFileSync_def r3 bindO_def writeFileSync_succeeds [OF keys(3) d3 nr3])
  have "nodeAt s1 (?K @ [''package.json'']) = Some (File m)"
    using kids [of "''package.json''"] man by simp
  then have "nodeAt s3 (?K @ [''package.json'']) = Some (File m)"
    using other3 [of "''package.json''" "[]"] other2 [of "''package.json''" "[]"] by simp
  then have m4: "nodeAt ?s4 (?K @ [''package.json'']) = Some (File m)"
    by (simp add: nodeAt_update)
  have d4: "nodeAt ?s4 ?K = Some Dir" using d3 by (simp add: nodeAt_update)
  have n4: "nodeAt ?s4 (?K @ [''package.json'']) \<noteq> Some Dir" using m4 by simp
  let ?s5 = "AList.update (?K @ [''package.json'']) (File (stringifyJSON e j')) ?s4"
  have st4: "updatePackageJson e config ?p ?s4 = Ok () ?s5"
    unfolding updatePackageJson_def Let_def
    by (simp add: readFileSync_def keys(4) m4 bindO_def pj up
        writeFileSync_succeeds [OF keys(4) d4 n4])
  have "createExample e fuel exampleName outputDir s = Ok ?p ?s5"
    unfolding createExample_def own jsprop.case Let_def
      exampleDirOf_def [symmetric] templateDirOf_def [symmetric]
      contractSourceOf_def [symmetric] testSourceOf_def [symmetric]
    by (simp add: bindO_def st0 st1 st2 st3 st4)
  then show ?thesis by blast
qed

lemma nodeAt_mem: "nodeAt s k = Some v \<Longrightarrow> k \<noteq> [] \<Longrightarrow> (k, v) \<in> set s"
  by (simp add: nodeAt_def map_of_SomeD)

lemma absent_None:
  assumes "absent K s" "prefix K k"
  shows "nodeAt s k = None"
proof (cases "nodeAt s k")
  case None
  then show ?thesis .
next
  case (Some v)
  from assms have kne: "k \<noteq> []" by (auto simp: absent_def)
  from nodeAt_mem [OF Some kne] assms show ?thesis by (auto simp: absent_def list_all_iff)
qed

lemma absent_mirrors: "absent K s \<Longrightarrow> mirrors T K s"
  by (simp add: mirrors_def absent_None)

lemma clearAbove_noFileAbove:
  assumes "clearAbove K s"
  shows "noFileAbove K s"
  unfolding noFileAbove_def
proof (intro allI impI notI)
  fix k c assume k: "prefix k K" and f: "nodeAt s k = Some (File c)"
  from f have "k \<noteq> []" by (auto simp: nodeAt_def)
  from nodeAt_mem [OF f this] assms k show False by (auto simp: clearAbove_def list_all_iff)
qed

lemma nestedWithin_shallow:
  assumes "nestedWithin T fuel s"
  shows "shallow T fuel s"
  unfolding shallow_def
proof (intro allI impI)
  fix k assume k: "prefix T k \<and> nodeAt s k = Some Dir"
  show "length k < length T + fuel"
  proof (cases "k = []")
    case True
    with k assms show ?thesis by (simp add: nestedWithin_def)
  next
    case False
    from nodeAt_mem [OF _ False, of s Dir] k assms show ?thesis
      by (auto simp: nestedWithin_def list_all_iff)
  qed
qed

lemma templateReady_facts: "templateReady e fuel s \<Longrightarrow> templateFacts e fuel s"
  by (simp add: templateReady_def templateFacts_def nestedWithin_shallow)

lemma exampleReady_succeeds:
  assumes "getProp EXAMPLES exampleName = Own config" "wfFs s"
    and "exampleReady e fuel config outputDir s"
  shows "\<exists>s'. createExample e fuel exampleName outputDir s
                = Ok (exampleDirOf e outputDir config) s'"
proof -
  let ?K = "fsKey (cwd e) (exampleDirOf e outputDir config)"
  from assms(3) have pl: "placedApart e config ?K" and ab: "absent ?K s"
    and cl: "clearAbove ?K s" and tr: "templateReady e fuel s" and sr: "sourcesReady e config s"
    by (simp_all add: exampleReady_def)
  show ?thesis
    using assms(1,2) pl clearAbove_noFileAbove [OF cl] absent_mirrors [OF ab]
      templateReady_facts [OF tr] sr
    by (rule createExample_succeeds)
qed

lemma createExample_readme:
  assumes own: "getProp EXAMPLES exampleName = Own config"
    and wf: "wfFs s"
    and aR: "apart (fsKey (cwd e) (exampleDirOf e outputDir config))
                   (fsKey (cwd e) (templateReadmePath e))"
    and run: "createExample e fuel exampleName outputDir s = Ok p s'"
  shows "p = exampleDirOf e outputDir config"
    and "\<exists>t. nodeAt s (fsKey (cwd e) (templateReadmePath e)) = Some (File t)
           \<and> nodeAt s' (fsKey (cwd e) p @ [''README.md''])
               = Some (File (renderReadme config t))"
proof -
  let ?p = "exampleDirOf e outputDir config"
  let ?K = "fsKey (cwd e) ?p"
  let ?R = "fsKey (cwd e) (templateReadmePath e)"
  from createExample_Own_steps [OF own run] obtain s1 s2 s3 s4 where
    p: "p = ?p"
    and st0: "copyDirectory e fuel (templateDirOf e) p s = Ok () s1"
    and st1: "copyIfExists e
          (path_join [dirname e, ''../examples'', name config, ''contracts'', contractFile config])
          (path_join [p, ''contracts'', contractFile config]) s1 = Ok () s2"
    and st2: "copyIfExists e
          (path_join [dirname e, ''../examples'', name config, ''test'', testFile config])
          (path_join [p, ''test'', testFile config]) s2 = Ok () s3"
    and st3: "generateReadme e config (path_join [p, ''README.md'']) s3 = Ok () s4"
    and st4: "updatePackageJson e config p s4 = Ok () s'"
    by blast
  show "p = ?p" by (rule p)
  note pne = exampleDirOf_nonempty [of e outputDir config]
  note keys = example_keys [OF own pne, of e]
  note g0 = step_good [OF good_copyDirectory [OF pne wf] st0 [unfolded p]]
  note g1 = step_good [OF good_copyIfExists [OF g0(1)] st1 [unfolded p], unfolded keys]
  note g2 = step_good [OF good_copyIfExists [OF g1(1)] st2 [unfolded p], unfolded keys]
  have c3: "confined ?K s s3"
    by (intro confined_trans [OF g0(2)] confined_trans [OF confined_mono [OF g1(2)]]
        confined_mono [OF g2(2)]) simp_all
  from generateReadme_Ok [OF st3 [unfolded p]] obtain t where
    s4: "s4 = AList.update (?K @ [''README.md'']) (File (renderReadme config t)) s3"
    and t3: "nodeAt s3 ?R = Some (File t)"
    unfolding keys templateReadmePath_def [symmetric] by blast
  have t0: "nodeAt s ?R = Some (File t)"
    using confined_apart [OF c3 aR] t3 by simp
  from updatePackageJson_Ok [OF st4 [unfolded p]] obtain c where
    s': "s' = AList.update (?K @ [''package.json'']) (File c) s4"
    unfolding keys by blast
  have "nodeAt s' (?K @ [''README.md'']) = Some (File (renderReadme config t))"
    unfolding s' s4 by (simp add: nodeAt_update)
  with t0 show "\<exists>t. nodeAt s ?R = Some (File t)
           \<and> nodeAt s' (fsKey (cwd e) p @ [''README.md'']) = Some (File (renderReadme config t))"
    unfolding p by blast
qed

lemma baseTemplate_pieces: "baseTemplate = templateText baseTemplatePieces"
  by (simp add: baseTemplate_def baseTemplatePieces_def templateText_def)

lemma baseTemplate_wellFormed: "list_all wellFormedPiece baseTemplatePieces"
  by (simp add: baseTemplatePieces_def tokenShaped_def nl_def)

lemma renderReadme_baseTemplate:
  assumes "getProp EXAMPLES k = Own config"
  shows "renderReadme config baseTemplate =
       ''# '' @
       title config @
       nl @
       nl @
       ''**'' @
       description config @
       ''**'' @ nl @
       nl @
       ''> Part of FHEVM Examples Hub - Learn privacy-preserving smart contract development'' @
       nl @
       nl @
       ''## Concept'' @ nl @
       nl @
       concept config @
       nl @
       nl @
       ''## What You'' @ [CHR 0x27] @ ''ll Learn'' @ nl @
       nl @
       joinWith nl (map (\<lambda>obj. ''- '' @ obj) (learningObjectives config)) @
       nl @
       nl @
       ''## Contract Overview'' @ nl @
       nl @
       ''This example implements '' @ [CHR 0x60] @ contractFile config @ [CHR 0x60] @
       '', demonstrating '' @ toLowerCase (description config) @ ''.'' @
       nl @
       nl @
       ''## Key FHEVM Features'' @ nl @
       nl @
       joinWith nl (map (\<lambda>feat. ''- **'' @ feat @ ''**'') (fhevmFeatures config)) @
       nl @
       nl @
       ''## Installation'' @ nl @
       nl @
       [CHR 0x60, CHR 0x60, CHR 0x60] @ ''bash'' @ nl @
       ''# Install dependencies'' @ nl @
       ''npm install'' @ nl @
       nl @
       ''# Compile contracts'' @ nl @
       ''npm run compile'' @ nl @
       nl @
       ''# Run tests'' @ nl @
       ''npm test'' @ nl @
       [CHR 0x60, CHR 0x60, CHR 0x60] @ nl @
       nl @
       ''## Usage Example'' @ nl @
       nl @
       ''See '' @ [CHR 0x60] @ ''test/'' @ testFile config @ [CHR 0x60] @
       '' for detailed usage examples with annotations.'' @
       nl @
       nl @
       ''## Test Coverage'' @ nl @
       nl @
       ''This example includes comprehensive tests demonstrating:'' @ nl @
       nl @
       joinWith nl (map (\<lambda>obj. ''- '' @ obj) (learningObjectives config)) @
       nl @
       nl @
       ''## Common Pitfalls'' @ nl @
       nl @
       ''- Missing FHE.allowThis() before operations'' @ nl @
       ''- Forgetting to grant user permissions with FHE.allow()'' @ nl @
       ''- Incorrect input proof handling'' @
       nl @
       nl @
       ''## Best Practices'' @ nl @
       nl @
       ''- Always call FHE.allowThis() for contract operations'' @ nl @
       ''- Grant minimal necessary permissions'' @ nl @
       ''- Use appropriate encrypted type sizes (euint8 vs euint32)'' @
       nl @
       nl @
       ''## Real-World Use Case'' @ nl @
       nl @
       useCaseDescription config @
       nl @
       nl @
       ''## Next Steps'' @ nl @
       nl @
       ''After understanding this example, explore:'' @ nl @
       nl @
       ''- Advanced access control patterns'' @ nl @
       ''- Multi-party decryption'' @ nl @
       ''- Complex encrypted calculations'' @
       nl @
       nl @
       ''## Resources'' @ nl @
       nl @
       ''- [Zama fhEVM Documentation](https://docs.zama.ai/fhevm)'' @ nl @
       ''- [FHEVM Examples Hub](../)'' @ nl @
       ''- [Privacy Lending Platform](https://github.com/GeovanniParker/PrivacyLending)'' @
       nl @
       nl @
       ''## License'' @ nl @
       nl @
       ''MIT License - Free to use and learn from'' @ nl @
       nl @
       ''---'' @ nl @
       nl @
       ''**Chapter**: '' @
       chapter config @
       nl @
       nl @
       ''**Difficulty**: '' @
       capitalize (difficulty_str (difficulty config)) @
       nl"
  unfolding baseTemplate_pieces renderReadme_pieces [OF assms baseTemplate_wellFormed]
  by (simp add: baseTemplatePieces_def templateText_def replacements_def)

lemma demo_contractSource_key:
  "fsKey (cwd demoEnv) (contractSourceOf demoEnv ex_access_control)
     = [''r'', ''examples'', ''access-control'', ''contracts'', ''LendingAccessControl.sol'']"
  by (simp add: contractSourceOf_def path_defs demoEnv_def access_control_fields)

lemma demo_testSource_key:
  "fsKey (cwd demoEnv) (testSourceOf demoEnv ex_access_control)
     = [''r'', ''examples'', ''access-control'', ''test'', ''AccessControl.test.ts'']"
  by (simp add: testSourceOf_def path_defs demoEnv_def access_control_fields)

lemma demo_parseJSON: "parseJSON demoEnv = demoParse"
  by (simp add: demoEnv_def)

lemma demo_exampleReady:
  "exampleReady demoEnv (Suc 0) ex_access_control (Some ''./out'') demoFs"
  unfolding exampleReady_def placedApart_def templateReady_def sourcesReady_def
    demo_exampleDirOf demo_templateDirOf demo_exampleDir_key demo_templateDir_key
    demo_templateReadme_key demo_contractSource_key demo_testSource_key
  by (simp add: apart_def absent_def clearAbove_def nestedWithin_def manifestReady_def
      readmeTemplateReady_def overlayReady_def demo_templateDirOf demo_templateDir_key
      demo_templateReadme_key nodeAt_def demoFs_def demo_parseJSON demoParse_def)

lemma demo_template_pieces:
  "demoTemplateText = templateText [Text ''# '', Token ''{{EXAMPLE_TITLE}}'', Text '' ('',
      Token ''{{CHAPTER_TAG}}'', Text '') '', Token ''{{EXAMPLE_TITLE}}'']"
  by (simp add: demoTemplateText_def templateText_def)

text \<open>
  C1: for a key of \<open>EXAMPLES\<close>, with the destination apart from the template of the README:
  on a free destination and a ready template, \<open>createExample\<close> with fuel beyond the nesting
  of the template returns the destination. Whenever it returns, \<open><destination>/README.md\<close>
  holds the rendering of the text that \<open>README.template.md\<close> had at the start: no key of the
  replacement table occurs in it, and if the template is made of brace-free text and
  placeholders, the README is the same sequence with every placeholder of the table replaced
  by its value, at each of its occurrences. The two list-valued fields are rendered as bullet
  items joined by newlines. For the template as shipped the rendering is spelled out: each of
  its fourteen placeholders has given way to the field of the descriptor.
\<close>

theorem createExample_readme_has_no_tokens:
  assumes "getProp EXAMPLES exampleName = Own config"
    and "wfFs s"
    and "apart (fsKey (cwd e) (exampleDirOf e outputDir config))
               (fsKey (cwd e) (templateReadmePath e))"
  shows "(exampleReady e fuel config outputDir s \<longrightarrow>
            (\<exists>s'. createExample e fuel exampleName outputDir s
                    = Ok (exampleDirOf e outputDir config) s'))
       \<and> (\<forall>p s'. createExample e fuel exampleName outputDir s = Ok p s' \<longrightarrow>
            (\<exists>template readme.
                nodeAt s (fsKey (cwd e) (templateReadmePath e)) = Some (File template)
              \<and> nodeAt s' (fsKey (cwd e) p @ [''README.md'']) = Some (File readme)
              \<and> readme = renderReadme config template
              \<and> (\<forall>(k, v) \<in> set (replacements config). \<not> sublist k readme)
              \<and> (\<forall>ps. list_all wellFormedPiece ps \<and> template = templateText ps \<longrightarrow>
                    readme = templateText (map (fillPiece (replacements config)) ps))))
       \<and> (\<forall>a b. CHR ''{'' \<notin> set a \<and> CHR ''{'' \<notin> set b \<longrightarrow>
              renderReadme config (a @ ''{{LEARNING_OBJECTIVES}}'' @ b)
                = a @ joinWith nl (map (\<lambda>obj. ''- '' @ obj) (learningObjectives config)) @ b
            \<and> renderReadme config (a @ ''{{FHEVM_FEATURES}}'' @ b)
                = a @ joinWith nl (map (\<lambda>feat. ''- **'' @ feat @ ''**'') (fhevmFeatures config)) @ b)
       \<and> renderReadme config baseTemplate =
       ''# '' @
       title config @
       nl @
       nl @
       ''**'' @
       description config @
       ''**'' @ nl @
       nl @
       ''> Part of FHEVM Examples Hub - Learn privacy-preserving smart contract development'' @
       nl @
       nl @
       ''## Concept'' @ nl @
       nl @
       concept config @
       nl @
       nl @
       ''## What You'' @ [CHR 0x27] @ ''ll Learn'' @ nl @
       nl @
       joinWith nl (map (\<lambda>obj. ''- '' @ obj) (learningObjectives config)) @
       nl @
       nl @
       ''## Contract Overview'' @ nl @
       nl @
       ''This example implements '' @ [CHR 0x60] @ contractFile config @ [CHR 0x60] @
       '', demonstrating '' @ toLowerCase (description config) @ ''.'' @
       nl @
       nl @
       ''## Key FHEVM Features'' @ nl @
       nl @
       joinWith nl (map (\<lambda>feat. ''- **'' @ feat @ ''**'') (fhevmFeatures config)) @
       nl @
       nl @
       ''## Installation'' @ nl @
       nl @
       [CHR 0x60, CHR 0x60, CHR 0x60] @ ''bash'' @ nl @
       ''# Install dependencies'' @ nl @
       ''npm install'' @ nl @
       nl @
       ''# Compile contracts'' @ nl @
       ''npm run compile'' @ nl @
       nl @
       ''# Run tests'' @ nl @
       ''npm test'' @ nl @
       [CHR 0x60, CHR 0x60, CHR 0x60] @ nl @
       nl @
       ''## Usage Example'' @ nl @
       nl @
       ''See '' @ [CHR 0x60] @ ''test/'' @ testFile config @ [CHR 0x60] @
       '' for detailed usage examples with annotations.'' @
       nl @
       nl @
       ''## Test Coverage'' @ nl @
       nl @
       ''This example includes comprehensive tests demonstrating:'' @ nl @
       nl @
       joinWith nl (map (\<lambda>obj. ''- '' @ obj) (learningObjectives config)) @
       nl @
       nl @
       ''## Common Pitfalls'' @ nl @
       nl @
       ''- Missing FHE.allowThis() before operations'' @ nl @
       ''- Forgetting to grant user permissions with FHE.allow()'' @ nl @
       ''- Incorrect input proof handling'' @
       nl @
       nl @
       ''## Best Practices'' @ nl @
       nl @
       ''- Always call FHE.allowThis() for contract operations'' @ nl @
       ''- Grant minimal necessary permissions'' @ nl @
       ''- Use appropriate encrypted type sizes (euint8 vs euint32)'' @
       nl @
       nl @
       ''## Real-World Use Case'' @ nl @
       nl @
       useCaseDescription config @
       nl @
       nl @
       ''## Next Steps'' @ nl @
       nl @
       ''After understanding this example, explore:'' @ nl @
       nl @
       ''- Advanced access control patterns'' @ nl @
       ''- Multi-party decryption'' @ nl @
       ''- Complex encrypted calculations'' @
       nl @
       nl @
       ''## Resources'' @ nl @
       nl @
       ''- [Zama fhEVM Documentation](https://docs.zama.ai/fhevm)'' @ nl @
       ''- [FHEVM Examples Hub](../)'' @ nl @
       ''- [Privacy Lending Platform](https://github.com/GeovanniParker/PrivacyLending)'' @
       nl @
       nl @
       ''## License'' @ nl @
       nl @
       ''MIT License - Free to use and learn from'' @ nl @
       nl @
       ''---'' @ nl @
       nl @
       ''**Chapter**: '' @
       chapter config @
       nl @
       nl @
       ''**Difficulty**: '' @
       capitalize (difficulty_str (difficulty config)) @
       nl"
proof (intro conjI impI allI)
  assume "exampleReady e fuel config outputDir s"
  with assms(1,2)
  show "\<exists>s'. createExample e fuel exampleName outputDir s = Ok (exampleDirOf e outputDir config) s'"
    by (rule exampleReady_succeeds)
next
  fix p s' assume run: "createExample e fuel exampleName outputDir s = Ok p s'"
  from createExample_readme(2) [OF assms run] obtain t where
    t: "nodeAt s (fsKey (cwd e) (templateReadmePath e)) = Some (File t)"
    and r: "nodeAt s' (fsKey (cwd e) p @ [''README.md'']) = Some (File (renderReadme config t))"
    by blast
  have none: "\<forall>(k, v) \<in> set (replacements config). \<not> sublist k (renderReadme config t)"
    using renderReadme_no_token [OF assms(1)] by blast
  have pieces: "\<forall>ps. list_all wellFormedPiece ps \<and> t = templateText ps \<longrightarrow>
      renderReadme config t = templateText (map (fillPiece (replacements config)) ps)"
    using renderReadme_pieces [OF assms(1)] by blast
  show "\<exists>template readme.
          nodeAt s (fsKey (cwd e) (templateReadmePath e)) = Some (File template)
        \<and> nodeAt s' (fsKey (cwd e) p @ [''README.md'']) = Some (File readme)
        \<and> readme = renderReadme config template
        \<and> (\<forall>(k, v) \<in> set (replacements config). \<not> sublist k readme)
        \<and> (\<forall>ps. list_all wellFormedPiece ps \<and> template = templateText ps \<longrightarrow>
              readme = templateText (map (fillPiece (replacements config)) ps))"
    by (intro exI [of _ t] exI [of _ "renderReadme config t"] conjI t r refl none pieces)
next
  fix a b assume ab: "CHR ''{'' \<notin> set a \<and> CHR ''{'' \<notin> set b"
  then show "renderReadme config (a @ ''{{LEARNING_OBJECTIVES}}'' @ b)
      = a @ joinWith nl (map (\<lambda>obj. ''- '' @ obj) (learningObjectives config)) @ b"
    using renderReadme_bullets(1) [OF assms(1), of a b] by blast
  from ab show "renderReadme config (a @ ''{{FHEVM_FEATURES}}'' @ b)
      = a @ joinWith nl (map (\<lambda>feat. ''- **'' @ feat @ ''**'') (fhevmFeatures config)) @ b"
    using renderReadme_bullets(2) [OF assms(1), of a b] by blast
next
  show "renderReadme config baseTemplate =
       ''# '' @
       title config @
       nl @
       nl @
       ''**'' @
       description config @
       ''**'' @ nl @
       nl @
       ''> Part of FHEVM Examples Hub - Learn privacy-preserving smart contract development'' @
       nl @
       nl @
       ''## Concept'' @ nl @
       nl @
       concept config @
       nl @
       nl @
       ''## What You'' @ [CHR 0x27] @ ''ll Learn'' @ nl @
       nl @
       joinWith nl (map (\<lambda>obj. ''- '' @ obj) (learningObjectives config)) @
       nl @
       nl @
       ''## Contract Overview'' @ nl @
       nl @
       ''This example implements '' @ [CHR 0x60] @ contractFile config @ [CHR 0x60] @
       '', demonstrating '' @ toLowerCase (description config) @ ''.'' @
       nl @
       nl @
       ''## Key FHEVM Features'' @ nl @
       nl @
       joinWith nl (map (\<lambda>feat. ''- **'' @ feat @ ''**'') (fhevmFeatures config)) @
       nl @
       nl @
       ''## Installation'' @ nl @
       nl @
       [CHR 0x60, CHR 0x60, CHR 0x60] @ ''bash'' @ nl @
       ''# Install dependencies'' @ nl @
       ''npm install'' @ nl @
       nl @
       ''# Compile contracts'' @ nl @
       ''npm run compile'' @ nl @
       nl @
       ''# Run tests'' @ nl @
       ''npm test'' @ nl @
       [CHR 0x60, CHR 0x60, CHR 0x60] @ nl @
       nl @
       ''## Usage Example'' @ nl @
       nl @
       ''See '' @ [CHR 0x60] @ ''test/'' @ testFile config @ [CHR 0x60] @
       '' for detailed usage examples with annotations.'' @
       nl @
       nl @
       ''## Test Coverage'' @ nl @
       nl @
       ''This example includes comprehensive tests demonstrating:'' @ nl @
       nl @
       joinWith nl (map (\<lambda>obj. ''- '' @ obj) (learningObjectives config)) @
       nl @
       nl @
       ''## Common Pitfalls'' @ nl @
       nl @
       ''- Missing FHE.allowThis() before operations'' @ nl @
       ''- Forgetting to grant user permissions with FHE.allow()'' @ nl @
       ''- Incorrect input proof handling'' @
       nl @
       nl @
       ''## Best Practices'' @ nl @
       nl @
       ''- Always call FHE.allowThis() for contract operations'' @ nl @
       ''- Grant minimal necessary permissions'' @ nl @
       ''- Use appropriate encrypted type sizes (euint8 vs euint32)'' @
       nl @
       nl @
       ''## Real-World Use Case'' @ nl @
       nl @
       useCaseDescription config @
       nl @
       nl @
       ''## Next Steps'' @ nl @
       nl @
       ''After understanding this example, explore:'' @ nl @
       nl @
       ''- Advanced access control patterns'' @ nl @
       ''- Multi-party decryption'' @ nl @
       ''- Complex encrypted calculations'' @
       nl @
       nl @
       ''## Resources'' @ nl @
       nl @
       ''- [Zama fhEVM Documentation](https://docs.zama.ai/fhevm)'' @ nl @
       ''- [FHEVM Examples Hub](../)'' @ nl @
       ''- [Privacy Lending Platform](https://github.com/GeovanniParker/PrivacyLending)'' @
       nl @
       nl @
       ''## License'' @ nl @
       nl @
       ''MIT License - Free to use and learn from'' @ nl @
       nl @
       ''---'' @ nl @
       nl @
       ''**Chapter**: '' @
       chapter config @
       nl @
       nl @
       ''**Difficulty**: '' @
       capitalize (difficulty_str (difficulty config)) @
       nl"
    using assms(1) by (rule renderReadme_baseTemplate)
qed

theorem createExample_readme_has_no_tokens_witness:
  "getProp EXAMPLES ''access-control'' = Own ex_access_control
   \<and> wfFs demoFs
   \<and> exampleReady demoEnv (Suc 0) ex_access_control (Some ''./out'') demoFs
   \<and> createExample demoEnv (Suc 0) ''access-control'' (Some ''./out'') demoFs
       = Ok ''out/example-access-control'' demoFsAfter
   \<and> nodeAt demoFs [''r'', ''templates'', ''hardhat-base'', ''README.template.md'']
       = Some (File ''# {{EXAMPLE_TITLE}} ({{CHAPTER_TAG}}) {{EXAMPLE_TITLE}}'')
   \<and> nodeAt demoFsAfter [''w'', ''out'', ''example-access-control'', ''README.md'']
       = Some (File ''# Access Control for Encrypted Data (access-control) Access Control for Encrypted Data'')
   \<and> \<not> sublist ''{{EXAMPLE_TITLE}}''
         ''# Access Control for Encrypted Data (access-control) Access Control for Encrypted Data''
   \<and> \<not> sublist ''{{CHAPTER_TAG}}''
         ''# Access Control for Encrypted Data (access-control) Access Control for Encrypted Data''
   \<and> renderReadme ex_access_control (''Goals:'' @ nl @ ''{{LEARNING_OBJECTIVES}}'')
       = ''Goals:'' @ nl
         @ ''- Understand FHE.allow() for granting user permissions'' @ nl
         @ ''- Use FHE.allowThis() for contract self-permissions'' @ nl
         @ ''- Implement role-based access patterns'' @ nl
         @ ''- Manage encrypted data visibility''"
proof -
  let ?out = "''# Access Control for Encrypted Data (access-control) Access Control for Encrypted Data''"
  let ?ps = "[Text ''# '', Token ''{{EXAMPLE_TITLE}}'', Text '' ('',
      Token ''{{CHAPTER_TAG}}'', Text '') '', Token ''{{EXAMPLE_TITLE}}'']"
  have ap: "apart (fsKey (cwd demoEnv) (exampleDirOf demoEnv (Some ''./out'') ex_access_control))
                  (fsKey (cwd demoEnv) (templateReadmePath demoEnv))"
    unfolding demo_exampleDirOf demo_exampleDir_key demo_templateReadme_key
    by (simp add: apart_def)
  note th = createExample_readme_has_no_tokens
    [OF getProp_access_control wfFs_demoFs ap, of "Suc 0"]
  from th [THEN conjunct1] demo_exampleReady
  have ok: "\<exists>s'. createExample demoEnv (Suc 0) ''access-control'' (Some ''./out'') demoFs
                 = Ok (exampleDirOf demoEnv (Some ''./out'') ex_access_control) s'"
    by blast
  from th [THEN conjunct2, THEN conjunct1, rule_format, OF demo_run]
  obtain template readme where
    t: "nodeAt demoFs (fsKey (cwd demoEnv) (templateReadmePath demoEnv)) = Some (File template)"
    and r: "nodeAt demoFsAfter (fsKey (cwd demoEnv) ''out/example-access-control'' @ [''README.md''])
              = Some (File readme)"
    and none: "\<forall>(k, v) \<in> set (replacements ex_access_control). \<not> sublist k readme"
    and pieces: "\<forall>ps. list_all wellFormedPiece ps \<and> template = templateText ps \<longrightarrow>
                  readme = templateText (map (fillPiece (replacements ex_access_control)) ps)"
    by blast
  have tt: "nodeAt demoFs [''r'', ''templates'', ''hardhat-base'', ''README.template.md'']
       = Some (File demoTemplateText)"
    by (simp add: nodeAt_def demoFs_def)
  from t have template: "template = demoTemplateText"
    unfolding demo_templateReadme_key tt by simp
  have wfp: "list_all wellFormedPiece ?ps" by (simp add: tokenShaped_def)
  from pieces wfp demo_template_pieces
  have "readme = templateText (map (fillPiece (replacements ex_access_control)) ?ps)"
    unfolding template by blast
  also have "\<dots> = ?out"
    by (simp add: templateText_def replacements_def ex_access_control_def)
  finally have readme: "readme = ?out" .
  have a: "nodeAt demoFsAfter [''w'', ''out'', ''example-access-control'', ''README.md'']
       = Some (File ?out)"
    using r unfolding demo_exampleDir_key readme by simp
  have "(''{{EXAMPLE_TITLE}}'', title ex_access_control) \<in> set (replacements ex_access_control)"
    by (simp add: replacements_def)
  with none have t1: "\<not> sublist ''{{EXAMPLE_TITLE}}'' ?out" unfolding readme by blast
  have "(''{{CHAPTER_TAG}}'', chapter ex_access_control) \<in> set (replacements ex_access_control)"
    by (simp add: replacements_def)
  with none have t2: "\<not> sublist ''{{CHAPTER_TAG}}'' ?out" unfolding readme by blast
  have "CHR ''{'' \<notin> set (''Goals:'' @ nl) \<and> CHR ''{'' \<notin> set []" by (simp add: nl_def)
  with th [THEN conjunct2, THEN conjunct2, THEN conjunct1]
  have "renderReadme ex_access_control ((''Goals:'' @ nl) @ ''{{LEARNING_OBJECTIVES}}'' @ [])
      = (''Goals:'' @ nl) @ joinWith nl (map (\<lambda>obj. ''- '' @ obj)
           (learningObjectives ex_access_control)) @ []"
    by blast
  then have b: "renderReadme ex_access_control (''Goals:'' @ nl @ ''{{LEARNING_OBJECTIVES}}'')
       = ''Goals:'' @ nl
         @ ''- Understand FHE.allow() for granting user permissions'' @ nl
         @ ''- Use FHE.allowThis() for contract self-permissions'' @ nl
         @ ''- Implement role-based access patterns'' @ nl
         @ ''- Manage encrypted data visibility''"
    by (simp add: ex_access_control_def)
  have tt': "nodeAt demoFs [''r'', ''templates'', ''hardhat-base'', ''README.template.md'']
       = Some (File ''# {{EXAMPLE_TITLE}} ({{CHAPTER_TAG}}) {{EXAMPLE_TITLE}}'')"
    using tt by (simp add: demoTemplateText_def)
  show ?thesis
    by (intro conjI getProp_access_control wfFs_demoFs demo_exampleReady demo_run tt' a t1 t2 b)
qed

subsection \<open>When creating a category succeeds\<close>

lemma member_dir_key:
  assumes own: "getProp EXAMPLES m = Own c" and dir: "dir \<noteq> []"
  shows "exampleDirOf e (Some dir) c = path_join [dir, ''example-'' @ m]"
    and "fsKey (cwd e) (exampleDirOf e (Some dir) c) = fsKey (cwd e) dir @ [''example-'' @ m]"
proof -
  note reg = registry_config [OF own]
  have base: "baseDirOf e (Some dir) ''generated-examples'' = dir"
    using dir by (simp add: baseDirOf_def)
  show p: "exampleDirOf e (Some dir) c = path_join [dir, ''example-'' @ m]"
    unfolding exampleDirOf_def base reg(1) ..
  show "fsKey (cwd e) (exampleDirOf e (Some dir) c) = fsKey (cwd e) dir @ [''example-'' @ m]"
    unfolding p using dir reg(4) unfolding reg(1) by (rule joined_key)
qed

lemma placedApart_below:
  assumes "placedApart e c K"
  shows "placedApart e c (K @ rel)"
  using assms apart_append [of K _ rel "[]"] by (simp add: placedApart_def)

lemma memberFacts_transfer:
  assumes mf: "memberFacts e K s m"
    and sa: "sameApart K s s'"
    and fresh: "\<And>k. prefix (K @ [''example-'' @ m]) k \<Longrightarrow> nodeAt s' k = nodeAt s k"
  shows "memberFacts e K s' m"
proof -
  from mf obtain c where own: "getProp EXAMPLES m = Own c" and pl: "placedApart e c K"
    and sr: "sourcesReady e c s"
    and fr: "\<And>k. prefix (K @ [''example-'' @ m]) k \<Longrightarrow> nodeAt s k = None"
    unfolding memberFacts_def by blast
  from sourcesReady_transfer [OF sa pl sr] have "sourcesReady e c s'" .
  with own pl fresh fr show ?thesis unfolding memberFacts_def by auto
qed

lemma createExamples_succeeds:
  assumes dir: "dir \<noteq> []"
    and aT: "apart (fsKey (cwd e) dir) (fsKey (cwd e) (templateDirOf e))"
    and aR: "apart (fsKey (cwd e) dir) (fsKey (cwd e) (templateReadmePath e))"
    and "wfFs s"
    and "nodeAt s (fsKey (cwd e) dir) = Some Dir"
    and "noFileAbove (fsKey (cwd e) dir) s"
    and "templateFacts e fuel s"
    and "distinct members"
    and "\<forall>m\<in>set members. memberFacts e (fsKey (cwd e) dir) s m"
  shows "\<exists>paths s'. createExamples e fuel members dir s = Ok paths s'
           \<and> nodeAt s' (fsKey (cwd e) dir) = Some Dir"
  using assms(4-)
proof (induction members arbitrary: s)
  case Nil
  then show ?case by simp
next
  case (Cons m members)
  let ?K = "fsKey (cwd e) dir"
  let ?Km = "?K @ [''example-'' @ m]"
  from Cons.prems(6) have "memberFacts e ?K s m" by simp
  then obtain c where own: "getProp EXAMPLES m = Own c" and pl: "placedApart e c ?K"
    and sr: "sourcesReady e c s"
    and fr: "\<And>k. prefix ?Km k \<Longrightarrow> nodeAt s k = None"
    unfolding memberFacts_def by blast
  note mk = member_dir_key [OF own dir, of e]
  have kk: "fsKey (cwd e) (path_join [dir, ''example-'' @ m]) = ?Km"
    using mk(2) unfolding mk(1) .
  have nf: "noFileAbove ?Km s"
    unfolding noFileAbove_def
  proof (intro allI impI)
    fix k c assume "prefix k ?Km"
    then consider "k = ?Km" | "prefix k ?K" by (auto simp: prefix_snoc)
    then show "nodeAt s k \<noteq> Some (File c)"
    proof cases
      case 1
      with fr [of ?Km] show ?thesis by simp
    next
      case 2
      with Cons.prems(3) show ?thesis by (rule noFileAboveD)
    qed
  qed
  have mi: "mirrors (fsKey (cwd e) (templateDirOf e)) ?Km s"
    unfolding mirrors_def using fr by simp
  from createExample_succeeds [OF own Cons.prems(1) _ _ _ Cons.prems(4) sr, of "Some dir"]
    placedApart_below [OF pl, of "[''example-'' @ m]"] nf mi
  obtain s1 where run: "createExample e fuel m (Some dir) s = Ok (path_join [dir, ''example-'' @ m]) s1"
    unfolding mk(1) kk by blast
  from good_createExample [OF own Cons.prems(1), of e "Some dir" fuel]
  have w1: "wfFs s1" and c1: "confined ?Km s s1"
    unfolding mk(1) kk run good_def by simp_all
  have sa: "sameApart ?K s s1" using c1 by (rule confined_sameApart)
  have d1: "nodeAt s1 ?K = Some Dir"
    using c1 _ Cons.prems(2) by (rule confined_keeps_dir) simp
  have nf1: "noFileAbove ?K s1"
    unfolding noFileAbove_def
  proof (intro allI impI)
    fix k c assume k: "prefix k ?K"
    have "\<not> prefix ?Km k"
    proof
      assume "prefix ?Km k"
      from this k have "prefix ?Km ?K" by (rule prefix_order.trans)
      then show False by simp
    qed
    from confined_no_file [OF c1 this noFileAboveD [OF Cons.prems(3) k]]
    show "nodeAt s1 k \<noteq> Some (File c)" .
  qed
  have tf1: "templateFacts e fuel s1"
    using sa aT aR Cons.prems(4) by (rule templateFacts_transfer)
  from Cons.prems(5) have nin: "m \<notin> set members" and dist: "distinct members" by simp_all
  have mem1: "\<forall>m'\<in>set members. memberFacts e ?K s1 m'"
  proof
    fix m' assume m': "m' \<in> set members"
    with nin have ne: "''example-'' @ m' \<noteq> ''example-'' @ m" by auto
    from Cons.prems(6) m' have mf: "memberFacts e ?K s m'" by simp
    show "memberFacts e ?K s1 m'"
    proof (rule memberFacts_transfer [OF mf sa])
      fix k assume "prefix (?K @ [''example-'' @ m']) k"
      then obtain rel where k: "k = ?K @ (''example-'' @ m') # rel" by (auto simp: prefix_def)
      from apart_siblings [OF ne, of ?K "[]" rel] have "apart ?Km k" unfolding k .
      with c1 show "nodeAt s1 k = nodeAt s k" by (rule confined_apart)
    qed
  qed
  from Cons.IH [OF w1 d1 nf1 tf1 dist mem1] obtain paths s' where
    rest: "createExamples e fuel members dir s1 = Ok paths s'"
    and d': "nodeAt s' ?K = Some Dir" by blast
  have "createExamples e fuel (m # members) dir s = Ok (path_join [dir, ''example-'' @ m] # paths) s'"
    unfolding createExamples.simps by (simp add: bindO_def run rest)
  with d' show ?case by blast
qed

lemma CATEGORIES_distinct: "list_all (\<lambda>(k, c). distinct (examples c)) CATEGORIES"
  by code_simp

lemma category_members_distinct:
  "getProp CATEGORIES k = Own config \<Longrightarrow> distinct (examples config)"
  using CATEGORIES_distinct unfolding list_all_iff by (auto dest!: getProp_Own_mem)

lemma categoryDirOf_nonempty: "categoryDirOf e outputDir config \<noteq> []"
  unfolding categoryDirOf_def by (rule path_join_nonempty)

lemma category_readme_key:
  "fsKey (cwd e) (path_join [categoryDirOf e outputDir config, ''README.md''])
     = fsKey (cwd e) (categoryDirOf e outputDir config) @ [''README.md'']"
  using categoryDirOf_nonempty by (intro joined_key) (simp_all add: simpleName_def)

lemma categoryReady_succeeds:
  assumes own: "getProp CATEGORIES categoryName = Own config"
    and wf: "wfFs s"
    and rdy: "categoryReady e fuel config outputDir s"
  shows "\<exists>s'. createCategory e fuel categoryName outputDir s
                = Ok (categoryDirOf e outputDir config) s'"
proof -
  let ?p = "categoryDirOf e outputDir config"
  let ?K = "fsKey (cwd e) ?p"
  note pne = categoryDirOf_nonempty [of e outputDir config]
  from rdy have aT: "apart ?K (fsKey (cwd e) (templateDirOf e))"
    and aR: "apart ?K (fsKey (cwd e) (templateReadmePath e))"
    and ab: "absent ?K s" and cl: "clearAbove ?K s" and tr: "templateReady e fuel s"
    and mr: "list_all (memberReady e ?K s) (examples config)"
    by (simp_all add: categoryReady_def)
  note nf = clearAbove_noFileAbove [OF cl]
  from ensure_dir_succeeds [OF wf nf] obtain s1 where
    mk: "(if \<not> existsSync e ?p s then mkdirSync e ?p s else Ok () s) = Ok () s1"
    and d1: "nodeAt s1 ?K = Some Dir" and w1: "wfFs s1" and a1: "dirsAdded ?K s s1"
    by blast
  have sa: "sameApart ?K s s1" using a1 by (rule dirsAdded_sameApart)
  have nf1: "noFileAbove ?K s1"
    unfolding noFileAbove_def
  proof (intro allI impI)
    fix k c assume "prefix k ?K"
    from dirsAdded_no_file [OF a1 noFileAboveD [OF nf this]]
    show "nodeAt s1 k \<noteq> Some (File c)" .
  qed
  have tf1: "templateFacts e fuel s1"
    using sa aT aR templateReady_facts [OF tr] by (rule templateFacts_transfer)
  have below: "nodeAt s1 (?K @ n # rel) = None" for n rel
  proof -
    have "\<not> prefix (?K @ n # rel) ?K" by simp
    from dirsAdded_other [OF a1 this] absent_None [OF ab, of "?K @ n # rel"]
    show ?thesis by simp
  qed
  have mem1: "\<forall>m\<in>set (examples config). memberFacts e ?K s1 m"
  proof
    fix m assume "m \<in> set (examples config)"
    with mr have m: "memberReady e ?K s m" by (simp add: list_all_iff)
    then obtain c where c: "getProp EXAMPLES m = Own c"
      by (cases "getProp EXAMPLES m") (simp_all add: memberReady_def)
    with m have pl: "placedApart e c ?K" and sr: "sourcesReady e c s"
      by (simp_all add: memberReady_def)
    have fr: "nodeAt s1 k = None" if "prefix (?K @ [''example-'' @ m]) k" for k
    proof -
      from that obtain rel where "k = ?K @ (''example-'' @ m) # rel" by (auto simp: prefix_def)
      with below show ?thesis by simp
    qed
    from c pl sourcesReady_transfer [OF sa pl sr] fr
    show "memberFacts e ?K s1 m" unfolding memberFacts_def by blast
  qed
  from createExamples_succeeds [OF pne aT aR w1 d1 nf1 tf1 category_members_distinct [OF own] mem1]
  obtain paths s2 where
    ex: "createExamples e fuel (examples config) ?p s1 = Ok paths s2"
    and d2: "nodeAt s2 ?K = Some Dir" by blast
  from createExamples_Ok [OF w1 pne ex] have
    others: "\<forall>n. n \<notin> (\<lambda>m. ''example-'' @ m) ` set (examples config)
              \<longrightarrow> nodeAt s2 (?K @ [n]) = nodeAt s1 (?K @ [n])"
    and owns: "list_all (\<lambda>m. isOwn (getProp EXAMPLES m)) (examples config)"
    by blast+
  from collect_links [OF owns] obtain links where
    col: "collect (map exampleLink (examples config)) = Inr links" by blast
  have "''README.md'' \<notin> (\<lambda>m. ''example-'' @ m) ` set (examples config)" by auto
  with others have "nodeAt s2 (?K @ [''README.md'']) = nodeAt s1 (?K @ [''README.md''])" by blast
  with below [of "''README.md''" "[]"] have nr: "nodeAt s2 (?K @ [''README.md'']) \<noteq> Some Dir"
    by simp
  have rd: "generateCategoryReadme e config (path_join [?p, ''README.md'']) s2
      = Ok () (AList.update (?K @ [''README.md''])
                 (File (categoryReadmeContent config (joinWith nl links))) s2)"
    unfolding generateCategoryReadme_def col sum.case
    using category_readme_key d2 nr by (rule writeFileSync_succeeds)
  have "createCategory e fuel categoryName outputDir s
      = Ok ?p (AList.update (?K @ [''README.md''])
                 (File (categoryReadmeContent config (joinWith nl links))) s2)"
    unfolding createCategory_def own jsprop.case Let_def categoryDirOf_def [symmetric]
    by (simp add: bindO_def mk ex rd)
  then show ?thesis by blast
qed

subsection \<open>What a run of the category generator has done\<close>

lemma createExamples_chain:
  assumes "dir \<noteq> []" "createExamples e fuel members dir s = Ok paths s'"
  shows "\<exists>ss. length ss = Suc (length members) \<and> hd ss = s \<and> last ss = s'
           \<and> (\<forall>i<length members.
                 createExample e fuel (members ! i) (Some dir) (ss ! i)
                   = Ok (path_join [dir, ''example-'' @ members ! i]) (ss ! Suc i))"
  using assms(2)
proof (induction members arbitrary: s paths)
  case Nil
  then have "s' = s" by simp
  then show ?case by (intro exI [of _ "[s]"]) simp
next
  case (Cons m members)
  from Cons.prems obtain p1 s1 ps where
    run: "createExample e fuel m (Some dir) s = Ok p1 s1"
    and rest: "createExamples e fuel members dir s1 = Ok ps s'"
    unfolding createExamples.simps bindO_Ok by auto
  from createExample_Ok_Own [OF run] obtain c where own: "getProp EXAMPLES m = Own c" by blast
  from createExample_Own_steps [OF own run] member_dir_key(1) [OF own assms(1), of e]
  have p1: "p1 = path_join [dir, ''example-'' @ m]" by auto
  from Cons.IH [OF rest] obtain ss where
    len: "length ss = Suc (length members)" and h: "hd ss = s1" and l: "last ss = s'"
    and steps: "\<forall>i<length members.
                 createExample e fuel (members ! i) (Some dir) (ss ! i)
                   = Ok (path_join [dir, ''example-'' @ members ! i]) (ss ! Suc i)"
    by blast
  from len have ne: "ss \<noteq> []" by auto
  then have h0: "ss ! 0 = s1" using h by (simp add: hd_conv_nth)
  have "\<forall>i<length (m # members).
           createExample e fuel ((m # members) ! i) (Some dir) ((s # ss) ! i)
             = Ok (path_join [dir, ''example-'' @ (m # members) ! i]) ((s # ss) ! Suc i)"
  proof (intro allI impI)
    fix i assume i: "i < length (m # members)"
    show "createExample e fuel ((m # members) ! i) (Some dir) ((s # ss) ! i)
             = Ok (path_join [dir, ''example-'' @ (m # members) ! i]) ((s # ss) ! Suc i)"
    proof (cases i)
      case 0
      with run p1 h0 show ?thesis by simp
    next
      case (Suc j)
      with i have "j < length members" by simp
      with steps Suc show ?thesis by simp
    qed
  qed
  moreover have "length (s # ss) = Suc (length (m # members))" using len by simp
  moreover have "hd (s # ss) = s" by simp
  moreover have "last (s # ss) = s'" using ne l by simp
  ultimately show ?case by blast
qed

lemma categoryReadme_shape:
  "\<exists>rest. categoryReadmeContent config links =
       ''# '' @ ctitle config @ nl @ nl @
       ''**'' @ cdescription config @ ''**'' @ nl @ nl @
       ''## Overview'' @ nl @ nl @
       overview config @ nl @ nl @
       ''## Examples in This Category'' @ nl @ nl @
       links @ nl @ nl @
       ''## Getting Started'' @ rest"
  unfolding categoryReadmeContent_def by (rule exI, rule refl)

lemma createCategory_result:
  assumes own: "getProp CATEGORIES categoryName = Own config"
    and wf: "wfFs s"
    and run: "createCategory e fuel categoryName outputDir s = Ok p s'"
  shows "p = categoryDirOf e outputDir config"
    and "\<exists>ss configs.
           length ss = Suc (length (examples config))
         \<and> (if \<not> existsSync e p s then mkdirSync e p s else Ok () s) = Ok () (hd ss)
         \<and> (\<forall>i<length (examples config).
               createExample e fuel (examples config ! i) (Some p) (ss ! i)
                 = Ok (path_join [p, ''example-'' @ examples config ! i]) (ss ! Suc i))
         \<and> list_all2 (\<lambda>m c. getProp EXAMPLES m = Own c) (examples config) configs
         \<and> s' = AList.update (fsKey (cwd e) p @ [''README.md''])
                  (File (categoryReadmeContent config
                     (joinWith nl (map (\<lambda>(m, c). linkEntry m c) (zip (examples config) configs)))))
                  (last ss)"
    and "\<forall>m\<in>set (examples config).
           nodeAt s' (fsKey (cwd e) p @ [''example-'' @ m]) = Some Dir"
    and "\<forall>n. n \<noteq> ''README.md'' \<and> n \<notin> (\<lambda>m. ''example-'' @ m) ` set (examples config)
           \<longrightarrow> nodeAt s' (fsKey (cwd e) p @ [n]) = nodeAt s (fsKey (cwd e) p @ [n])"
proof -
  let ?p = "categoryDirOf e outputDir config"
  let ?K = "fsKey (cwd e) ?p"
  from run obtain u1 s1 paths s2 u3 s3 where
    mk: "(if \<not> existsSync e ?p s then mkdirSync e ?p s else Ok () s) = Ok u1 s1"
    and ex: "createExamples e fuel (examples config) ?p s1 = Ok paths s2"
    and rd: "generateCategoryReadme e config (path_join [?p, ''README.md'']) s2 = Ok u3 s3"
    and fin: "Ok ?p s3 = Ok p s'"
    unfolding createCategory_def own jsprop.case Let_def bindO_Ok categoryDirOf_def [symmetric]
    by blast
  from fin have p: "p = ?p" and s3: "s3 = s'" by simp_all
  show "p = ?p" by (rule p)
  note pne = categoryDirOf_nonempty [of e outputDir config]
  note d = ensure_dir [OF mk wf]
  from createExamples_Ok [OF d(1) pne ex] have
    dirs: "\<forall>m\<in>set (examples config). nodeAt s2 (?K @ [''example-'' @ m]) = Some Dir"
    and others: "\<forall>n. n \<notin> (\<lambda>m. ''example-'' @ m) ` set (examples config)
              \<longrightarrow> nodeAt s2 (?K @ [n]) = nodeAt s1 (?K @ [n])"
    and owns: "list_all (\<lambda>m. isOwn (getProp EXAMPLES m)) (examples config)"
    by blast+
  from collect_links [OF owns] obtain configs where
    l2: "list_all2 (\<lambda>m c. getProp EXAMPLES m = Own c) (examples config) configs"
    and col: "collect (map exampleLink (examples config))
               = Inr (map (\<lambda>(m, c). linkEntry m c) (zip (examples config) configs))"
    by blast
  let ?content = "categoryReadmeContent config
      (joinWith nl (map (\<lambda>(m, c). linkEntry m c) (zip (examples config) configs)))"
  from rd have "writeFileSync e (path_join [?p, ''README.md'']) ?content s2 = Ok u3 s3"
    unfolding generateCategoryReadme_def col by simp
  from writeFileSync_Ok(1) [OF this]
  have s': "s' = AList.update (?K @ [''README.md'']) (File ?content) s2"
    unfolding category_readme_key s3 .
  from createExamples_chain [OF pne ex] obtain ss where
    len: "length ss = Suc (length (examples config))" and h: "hd ss = s1" and l: "last ss = s2"
    and steps: "\<forall>i<length (examples config).
                 createExample e fuel (examples config ! i) (Some ?p) (ss ! i)
                   = Ok (path_join [?p, ''example-'' @ examples config ! i]) (ss ! Suc i)"
    by blast
  have mk': "(if \<not> existsSync e ?p s then mkdirSync e ?p s else Ok () s) = Ok () (hd ss)"
    using mk h by simp
  show "\<exists>ss configs.
           length ss = Suc (length (examples config))
         \<and> (if \<not> existsSync e p s then mkdirSync e p s else Ok () s) = Ok () (hd ss)
         \<and> (\<forall>i<length (examples config).
               createExample e fuel (examples config ! i) (Some p) (ss ! i)
                 = Ok (path_join [p, ''example-'' @ examples config ! i]) (ss ! Suc i))
         \<and> list_all2 (\<lambda>m c. getProp EXAMPLES m = Own c) (examples config) configs
         \<and> s' = AList.update (fsKey (cwd e) p @ [''README.md''])
                  (File (categoryReadmeContent config
                     (joinWith nl (map (\<lambda>(m, c). linkEntry m c) (zip (examples config) configs)))))
                  (last ss)"
    unfolding p
    by (intro exI [of _ ss] exI [of _ configs] conjI len mk' steps l2) (simp add: s' l)
  have ne: "''README.md'' \<noteq> ''example-'' @ m" for m by simp
  show "\<forall>m\<in>set (examples config). nodeAt s' (fsKey (cwd e) p @ [''example-'' @ m]) = Some Dir"
    unfolding p s' using dirs ne by (simp add: nodeAt_update)
  show "\<forall>n. n \<noteq> ''README.md'' \<and> n \<notin> (\<lambda>m. ''example-'' @ m) ` set (examples config)
           \<longrightarrow> nodeAt s' (fsKey (cwd e) p @ [n]) = nodeAt s (fsKey (cwd e) p @ [n])"
    unfolding p
  proof (intro allI impI)
    fix n assume n: "n \<noteq> ''README.md'' \<and> n \<notin> (\<lambda>m. ''example-'' @ m) ` set (examples config)"
    then have "nodeAt s' (?K @ [n]) = nodeAt s2 (?K @ [n])"
      unfolding s' by (simp add: nodeAt_update)
    also have "\<dots> = nodeAt s1 (?K @ [n])" using others n by blast
    also have "\<dots> = nodeAt s (?K @ [n])" using d(2) by (rule dirsAdded_child)
    finally show "nodeAt s' (?K @ [n]) = nodeAt s (?K @ [n])" .
  qed
qed

lemma getProp_advanced: "getProp CATEGORIES ''advanced'' = Own cat_advanced"
  by (simp add: getProp_def CATEGORIES_def)

lemma advanced_fields:
  "cname cat_advanced = ''advanced''"
  "examples cat_advanced = [''credit-scoring'', ''input-proofs'']"
  by (simp_all add: cat_advanced_def)

lemma demo_adv_categoryDir:
  "path_join [baseDirOf demoEnv (Some ''cats'') ''generated-categories'',
              ''category-'' @ ''advanced''] = ''cats/category-advanced''"
  by (simp add: path_defs baseDirOf_def)

lemma demo_adv_categoryDirOf:
  "categoryDirOf demoEnv (Some ''cats'') cat_advanced = ''cats/category-advanced''"
  unfolding categoryDirOf_def advanced_fields by (rule demo_adv_categoryDir)

lemma demo_adv_key:
  "fsKey (cwd demoEnv) ''cats/category-advanced'' = [''w'', ''cats'', ''category-advanced'']"
  by (simp add: path_defs demoEnv_def)

lemma demo_adv_mkdir:
  "(if \<not> existsSync demoEnv ''cats/category-advanced'' demoFs
    then mkdirSync demoEnv ''cats/category-advanced'' demoFs else Ok () demoFs)
     = Ok () demoAdvMade"
  by (simp add: path_defs fs_defs demoEnv_def demoFs_def demoAdvMade_def)

lemma getProp_credit_scoring: "getProp EXAMPLES ''credit-scoring'' = Own ex_credit_scoring"
  by (simp add: getProp_def EXAMPLES_def)

lemma credit_scoring_fields:
  "name ex_credit_scoring = ''credit-scoring''"
  "contractFile ex_credit_scoring = ''LendingCreditScore.sol''"
  "testFile ex_credit_scoring = ''CreditScore.test.ts''"
  by (simp_all add: ex_credit_scoring_def)

lemma demo_adv_dir_credit_scoring:
  "path_join [baseDirOf demoEnv (Some ''cats/category-advanced'') ''generated-examples'',
              ''example-'' @ name ex_credit_scoring]
     = ''cats/category-advanced/example-credit-scoring''"
  by (simp add: path_defs baseDirOf_def credit_scoring_fields)

lemma demo_adv_copy_credit_scoring:
  "copyDirectory demoEnv (Suc 0) ''/r/templates/hardhat-base''
     ''cats/category-advanced/example-credit-scoring'' demoAdvMade
     = Ok () demoAdvCopied_credit_scoring"
  by (simp add: path_defs fs_defs demoEnv_def demoAdvMade_def demoFs_def demoAdvCopied_credit_scoring_def)

lemma demo_adv_contract_credit_scoring:
  "copyIfExists demoEnv
     (path_join [dirname demoEnv, ''../examples'', name ex_credit_scoring, ''contracts'',
                 contractFile ex_credit_scoring])
     (path_join [''cats/category-advanced/example-credit-scoring'', ''contracts'', contractFile ex_credit_scoring])
     demoAdvCopied_credit_scoring = Ok () demoAdvCopied_credit_scoring"
  by (simp add: path_defs demoEnv_def credit_scoring_fields copyIfExists_def existsSync_def
      nodeAt_def demoAdvCopied_credit_scoring_def demoAdvMade_def demoFs_def)

lemma demo_adv_test_credit_scoring:
  "copyIfExists demoEnv
     (path_join [dirname demoEnv, ''../examples'', name ex_credit_scoring, ''test'',
                 testFile ex_credit_scoring])
     (path_join [''cats/category-advanced/example-credit-scoring'', ''test'', testFile ex_credit_scoring])
     demoAdvCopied_credit_scoring = Ok () demoAdvCopied_credit_scoring"
  by (simp add: path_defs demoEnv_def credit_scoring_fields copyIfExists_def existsSync_def
      nodeAt_def demoAdvCopied_credit_scoring_def demoAdvMade_def demoFs_def)

lemma demo_adv_readme_credit_scoring:
  "generateReadme demoEnv ex_credit_scoring
     (path_join [''cats/category-advanced/example-credit-scoring'', ''README.md''])
     demoAdvCopied_credit_scoring
     = Ok () (demoAdvCopied_credit_scoring @
         [([''w'', ''cats'', ''category-advanced'', ''example-credit-scoring'', ''README.md''],
           File (renderReadme ex_credit_scoring demoTemplateText))])"
  unfolding generateReadme_def demo_templatePath
  by (simp add: path_defs demoEnv_def readFileSync_def writeFileSync_def bindO_def
      nodeAt_def demoAdvCopied_credit_scoring_def demoAdvMade_def demoFs_def)

lemma demo_adv_manifest_credit_scoring:
  "updatePackageJson demoEnv ex_credit_scoring
     ''cats/category-advanced/example-credit-scoring''
     (demoAdvCopied_credit_scoring @
         [([''w'', ''cats'', ''category-advanced'', ''example-credit-scoring'', ''README.md''],
           File (renderReadme ex_credit_scoring demoTemplateText))])
     = Ok () demoAdvDone_credit_scoring"
  by (simp add: updatePackageJson_def path_defs demoEnv_def readFileSync_def writeFileSync_def
      bindO_def nodeAt_def demoAdvCopied_credit_scoring_def demoAdvMade_def demoFs_def demoAdvDone_credit_scoring_def
      demoParse_def updateManifest_def credit_scoring_fields)

lemma demo_adv_example_credit_scoring:
  "createExample demoEnv (Suc 0) ''credit-scoring'' (Some ''cats/category-advanced'') demoAdvMade
     = Ok ''cats/category-advanced/example-credit-scoring'' demoAdvDone_credit_scoring"
  by (simp only: createExample_def getProp_credit_scoring jsprop.case Let_def
      demo_templateDir demo_adv_dir_credit_scoring bindO_def outcome.case
      demo_adv_copy_credit_scoring demo_adv_contract_credit_scoring demo_adv_test_credit_scoring
      demo_adv_readme_credit_scoring demo_adv_manifest_credit_scoring)

lemma getProp_input_proofs: "getProp EXAMPLES ''input-proofs'' = Own ex_input_proofs"
  by (simp add: getProp_def EXAMPLES_def)

lemma input_proofs_fields:
  "name ex_input_proofs = ''input-proofs''"
  "contractFile ex_input_proofs = ''LendingInputProofs.sol''"
  "testFile ex_input_proofs = ''InputProofs.test.ts''"
  by (simp_all add: ex_input_proofs_def)

lemma demo_adv_dir_input_proofs:
  "path_join [baseDirOf demoEnv (Some ''cats/category-advanced'') ''generated-examples'',
              ''example-'' @ name ex_input_proofs]
     = ''cats/category-advanced/example-input-proofs''"
  by (simp add: path_defs baseDirOf_def input_proofs_fields)

lemma demo_adv_copy_input_proofs:
  "copyDirectory demoEnv (Suc 0) ''/r/templates/hardhat-base''
     ''cats/category-advanced/example-input-proofs'' demoAdvDone_credit_scoring
     = Ok () demoAdvCopied_input_proofs"
  by (simp add: path_defs fs_defs demoEnv_def demoAdvDone_credit_scoring_def demoAdvMade_def demoFs_def demoAdvCopied_input_proofs_def)

lemma demo_adv_contract_input_proofs:
  "copyIfExists demoEnv
     (path_join [dirname demoEnv, ''../examples'', name ex_input_proofs, ''contracts'',
                 contractFile ex_input_proofs])
     (path_join [''cats/category-advanced/example-input-proofs'', ''contracts'', contractFile ex_input_proofs])
     demoAdvCopied_input_proofs = Ok () demoAdvCopied_input_proofs"
  by (simp add: path_defs demoEnv_def input_proofs_fields copyIfExists_def existsSync_def
      nodeAt_def demoAdvCopied_input_proofs_def demoAdvDone_credit_scoring_def demoAdvMade_def demoFs_def)

lemma demo_adv_test_input_proofs:
  "copyIfExists demoEnv
     (path_join [dirname demoEnv, ''../examples'', name ex_input_proofs, ''test'',
                 testFile ex_input_proofs])
     (path_join [''cats/category-advanced/example-input-proofs'', ''test'', testFile ex_input_proofs])
     demoAdvCopied_input_proofs = Ok () demoAdvCopied_input_proofs"
  by (simp add: path_defs demoEnv_def input_proofs_fields copyIfExists_def existsSync_def
      nodeAt_def demoAdvCopied_input_proofs_def demoAdvDone_credit_scoring_def demoAdvMade_def demoFs_def)

lemma demo_adv_readme_input_proofs:
  "generateReadme demoEnv ex_input_proofs
     (path_join [''cats/category-advanced/example-input-proofs'', ''README.md''])
     demoAdvCopied_input_proofs
     = Ok () (demoAdvCopied_input_proofs @
         [([''w'', ''cats'', ''category-advanced'', ''example-input-proofs'', ''README.md''],
           File (renderReadme ex_input_proofs demoTemplateText))])"
  unfolding generateReadme_def demo_templatePath
  by (simp add: path_defs demoEnv_def readFileSync_def writeFileSync_def bindO_def
      nodeAt_def demoAdvCopied_input_proofs_def demoAdvDone_credit_scoring_def demoAdvMade_def demoFs_def)

lemma demo_adv_manifest_input_proofs:
  "updatePackageJson demoEnv ex_input_proofs
     ''cats/category-advanced/example-input-proofs''
     (demoAdvCopied_input_proofs @
         [([''w'', ''cats'', ''category-advanced'', ''example-input-proofs'', ''README.md''],
           File (renderReadme ex_input_proofs demoTemplateText))])
     = Ok () demoAdvDone_input_proofs"
  by (simp add: updatePackageJson_def path_defs demoEnv_def readFileSync_def writeFileSync_def
      bindO_def nodeAt_def demoAdvCopied_input_proofs_def demoAdvDone_credit_scoring_def demoAdvMade_def demoFs_def demoAdvDone_input_proofs_def
      demoParse_def updateManifest_def input_proofs_fields)

lemma demo_adv_example_input_proofs:
  "createExample demoEnv (Suc 0) ''input-proofs'' (Some ''cats/category-advanced'') demoAdvDone_credit_scoring
     = Ok ''cats/category-advanced/example-input-proofs'' demoAdvDone_input_proofs"
  by (simp only: createExample_def getProp_input_proofs jsprop.case Let_def
      demo_templateDir demo_adv_dir_input_proofs bindO_def outcome.case
      demo_adv_copy_input_proofs demo_adv_contract_input_proofs demo_adv_test_input_proofs
      demo_adv_readme_input_proofs demo_adv_manifest_input_proofs)

lemma demo_adv_examples:
  "createExamples demoEnv (Suc 0) [''credit-scoring'', ''input-proofs''] ''cats/category-advanced'' demoAdvMade
     = Ok [''cats/category-advanced/example-credit-scoring'', ''cats/category-advanced/example-input-proofs''] demoAdvDone_input_proofs"
  by (simp only: createExamples.simps bindO_def outcome.case demo_adv_example_credit_scoring demo_adv_example_input_proofs)

lemma demo_adv_links:
  "collect (map exampleLink [''credit-scoring'', ''input-proofs''])
     = Inr [linkEntry ''credit-scoring'' ex_credit_scoring, linkEntry ''input-proofs'' ex_input_proofs]"
  by (simp add: exampleLink_def getProp_credit_scoring getProp_input_proofs)

lemma demo_adv_write:
  "writeFileSync demoEnv (path_join [''cats/category-advanced'', ''README.md'']) c demoAdvDone_input_proofs
     = Ok () (demoAdvDone_input_proofs @ [([''w'', ''cats'', ''category-advanced'', ''README.md''], File c)])"
  by (simp add: path_defs demoEnv_def writeFileSync_def nodeAt_def demoAdvDone_input_proofs_def demoAdvDone_credit_scoring_def demoAdvMade_def demoFs_def)

lemma demo_adv_run:
  "createCategory demoEnv (Suc 0) ''advanced'' (Some ''cats'') demoFs
     = Ok ''cats/category-advanced'' demoAdvFs"
  by (simp only: createCategory_def getProp_advanced jsprop.case Let_def demo_adv_categoryDir
      bindO_def outcome.case demo_adv_mkdir advanced_fields demo_adv_examples
      generateCategoryReadme_def demo_adv_links sum.case demo_adv_write demoAdvFs_def)

lemma demo_adv_sources:
  "fsKey (cwd demoEnv) (contractSourceOf demoEnv ex_credit_scoring)
     = [''r'', ''examples'', ''credit-scoring'', ''contracts'', ''LendingCreditScore.sol'']"
  "fsKey (cwd demoEnv) (testSourceOf demoEnv ex_credit_scoring)
     = [''r'', ''examples'', ''credit-scoring'', ''test'', ''CreditScore.test.ts'']"
  "fsKey (cwd demoEnv) (contractSourceOf demoEnv ex_input_proofs)
     = [''r'', ''examples'', ''input-proofs'', ''contracts'', ''LendingInputProofs.sol'']"
  "fsKey (cwd demoEnv) (testSourceOf demoEnv ex_input_proofs)
     = [''r'', ''examples'', ''input-proofs'', ''test'', ''InputProofs.test.ts'']"
  by (simp_all add: contractSourceOf_def testSourceOf_def path_defs demoEnv_def
      credit_scoring_fields input_proofs_fields)

lemma demo_categoryReady:
  "categoryReady demoEnv (Suc 0) cat_advanced (Some ''cats'') demoFs"
  unfolding categoryReady_def memberReady_def placedApart_def templateReady_def sourcesReady_def
    demo_adv_categoryDirOf demo_adv_key demo_templateDirOf demo_templateDir_key
    demo_templateReadme_key advanced_fields
  by (simp add: getProp_credit_scoring getProp_input_proofs demo_adv_sources
      apart_def absent_def clearAbove_def nestedWithin_def manifestReady_def
      readmeTemplateReady_def overlayReady_def demo_templateDirOf demo_templateDir_key
      demo_templateReadme_key nodeAt_def demoFs_def demo_parseJSON demoParse_def)

text \<open>
  C2: for a key of \<open>CATEGORIES\<close>: on a free destination and a ready template,
  \<open>createCategory\<close> with fuel beyond the nesting of the template returns the category
  directory. Whenever it returns, it has made the category directory, then run \<open>createExample\<close>
  once per member in the declared order, each run starting on what the previous one has left
  and returning \<open><category>/example-<member></category>\<close>, and last written \<open>README.md\<close>. Every member
  resolves in \<open>EXAMPLES\<close>, every \<open>example-<member></member>\<close> is a directory at the end, the README
  holds, under the heading of the examples, one link entry per member in the same order, and no
  other entry of the category directory has changed.
\<close>

theorem createCategory_creates_member_directories:
  assumes "getProp CATEGORIES categoryName = Own config"
    and "wfFs s"
  shows "(categoryReady e fuel config outputDir s \<longrightarrow>
            (\<exists>s'. createCategory e fuel categoryName outputDir s
                    = Ok (categoryDirOf e outputDir config) s'))
       \<and> (\<forall>p s'. createCategory e fuel categoryName outputDir s = Ok p s' \<longrightarrow>
            p = categoryDirOf e outputDir config
          \<and> (\<exists>ss configs rest.
                length ss = Suc (length (examples config))
              \<and> (if \<not> existsSync e p s then mkdirSync e p s else Ok () s) = Ok () (hd ss)
              \<and> (\<forall>i<length (examples config).
                    createExample e fuel (examples config ! i) (Some p) (ss ! i)
                      = Ok (path_join [p, ''example-'' @ examples config ! i]) (ss ! Suc i))
              \<and> list_all2 (\<lambda>m c. getProp EXAMPLES m = Own c) (examples config) configs
              \<and> s' = AList.update (fsKey (cwd e) p @ [''README.md''])
                  (File (''# '' @ ctitle config @ nl @ nl @
                         ''**'' @ cdescription config @ ''**'' @ nl @ nl @
                         ''## Overview'' @ nl @ nl @
                         overview config @ nl @ nl @
                         ''## Examples in This Category'' @ nl @ nl @
                         joinWith nl (map (\<lambda>(m, c).
                            ''### ['' @ title c @ ''](./example-'' @ m @ ''/)'' @ nl @ nl @
                            ''**Difficulty**: '' @ capitalize (difficulty_str (difficulty c)) @ nl @ nl @
                            description c @ nl @ nl @
                            ''**Learn**:'' @ nl @
                            joinWith nl (map (\<lambda>obj. ''- '' @ obj) (learningObjectives c)) @ nl @ nl @
                            ''[View Example '' @ [CHR 0xE2, CHR 0x86, CHR 0x92] @
                            ''](./example-'' @ m @ ''/)'' @ nl @ nl @
                            ''---'' @ nl) (zip (examples config) configs)) @ nl @ nl @
                         ''## Getting Started'' @ rest))
                  (last ss))
          \<and> (\<forall>m\<in>set (examples config).
                nodeAt s' (fsKey (cwd e) p @ [''example-'' @ m]) = Some Dir)
          \<and> (\<forall>n. n \<noteq> ''README.md'' \<and> n \<notin> (\<lambda>m. ''example-'' @ m) ` set (examples config)
                \<longrightarrow> nodeAt s' (fsKey (cwd e) p @ [n]) = nodeAt s (fsKey (cwd e) p @ [n])))"
proof -
  have A: "categoryReady e fuel config outputDir s \<longrightarrow>
            (\<exists>s'. createCategory e fuel categoryName outputDir s
                    = Ok (categoryDirOf e outputDir config) s')"
    using assms categoryReady_succeeds by blast
  have B: "p = categoryDirOf e outputDir config
          \<and> (\<exists>ss configs rest.
                length ss = Suc (length (examples config))
              \<and> (if \<not> existsSync e p s then mkdirSync e p s else Ok () s) = Ok () (hd ss)
              \<and> (\<forall>i<length (examples config).
                    createExample e fuel (examples config ! i) (Some p) (ss ! i)
                      = Ok (path_join [p, ''example-'' @ examples config ! i]) (ss ! Suc i))
              \<and> list_all2 (\<lambda>m c. getProp EXAMPLES m = Own c) (examples config) configs
              \<and> s' = AList.update (fsKey (cwd e) p @ [''README.md''])
                  (File (''# '' @ ctitle config @ nl @ nl @
                         ''**'' @ cdescription config @ ''**'' @ nl @ nl @
                         ''## Overview'' @ nl @ nl @
                         overview config @ nl @ nl @
                         ''## Examples in This Category'' @ nl @ nl @
                         joinWith nl (map (\<lambda>(m, c).
                            ''### ['' @ title c @ ''](./example-'' @ m @ ''/)'' @ nl @ nl @
                            ''**Difficulty**: '' @ capitalize (difficulty_str (difficulty c)) @ nl @ nl @
                            description c @ nl @ nl @
                            ''**Learn**:'' @ nl @
                            joinWith nl (map (\<lambda>obj. ''- '' @ obj) (learningObjectives c)) @ nl @ nl @
                            ''[View Example '' @ [CHR 0xE2, CHR 0x86, CHR 0x92] @
                            ''](./example-'' @ m @ ''/)'' @ nl @ nl @
                            ''---'' @ nl) (zip (examples config) configs)) @ nl @ nl @
                         ''## Getting Started'' @ rest))
                  (last ss))
          \<and> (\<forall>m\<in>set (examples config).
                nodeAt s' (fsKey (cwd e) p @ [''example-'' @ m]) = Some Dir)
          \<and> (\<forall>n. n \<noteq> ''README.md'' \<and> n \<notin> (\<lambda>m. ''example-'' @ m) ` set (examples config)
                \<longrightarrow> nodeAt s' (fsKey (cwd e) p @ [n]) = nodeAt s (fsKey (cwd e) p @ [n]))"
    if run: "createCategory e fuel categoryName outputDir s = Ok p s'" for p s'
  proof -
    note r = createCategory_result [OF assms run]
    from r(2) obtain ss configs where
      len: "length ss = Suc (length (examples config))"
      and mk: "(if \<not> existsSync e p s then mkdirSync e p s else Ok () s) = Ok () (hd ss)"
      and steps: "\<forall>i<length (examples config).
                 createExample e fuel (examples config ! i) (Some p) (ss ! i)
                   = Ok (path_join [p, ''example-'' @ examples config ! i]) (ss ! Suc i)"
      and l2: "list_all2 (\<lambda>m c. getProp EXAMPLES m = Own c) (examples config) configs"
      and s': "s' = AList.update (fsKey (cwd e) p @ [''README.md''])
                    (File (categoryReadmeContent config
                       (joinWith nl (map (\<lambda>(m, c). linkEntry m c) (zip (examples config) configs)))))
                    (last ss)"
      by blast
    from categoryReadme_shape [of config
        "joinWith nl (map (\<lambda>(m, c). linkEntry m c) (zip (examples config) configs))"]
    obtain rest where shape: "categoryReadmeContent config
        (joinWith nl (map (\<lambda>(m, c). linkEntry m c) (zip (examples config) configs))) =
         ''# '' @ ctitle config @ nl @ nl @
         ''**'' @ cdescription config @ ''**'' @ nl @ nl @
         ''## Overview'' @ nl @ nl @
         overview config @ nl @ nl @
         ''## Examples in This Category'' @ nl @ nl @
         joinWith nl (map (\<lambda>(m, c). linkEntry m c) (zip (examples config) configs)) @ nl @ nl @
         ''## Getting Started'' @ rest"
      by blast
    have E: "\<exists>ss configs rest.
                length ss = Suc (length (examples config))
              \<and> (if \<not> existsSync e p s then mkdirSync e p s else Ok () s) = Ok () (hd ss)
              \<and> (\<forall>i<length (examples config).
                    createExample e fuel (examples config ! i) (Some p) (ss ! i)
                      = Ok (path_join [p, ''example-'' @ examples config ! i]) (ss ! Suc i))
              \<and> list_all2 (\<lambda>m c. getProp EXAMPLES m = Own c) (examples config) configs
              \<and> s' = AList.update (fsKey (cwd e) p @ [''README.md''])
                  (File (''# '' @ ctitle config @ nl @ nl @
                         ''**'' @ cdescription config @ ''**'' @ nl @ nl @
                         ''## Overview'' @ nl @ nl @
                         overview config @ nl @ nl @
                         ''## Examples in This Category'' @ nl @ nl @
                         joinWith nl (map (\<lambda>(m, c).
                            ''### ['' @ title c @ ''](./example-'' @ m @ ''/)'' @ nl @ nl @
                            ''**Difficulty**: '' @ capitalize (difficulty_str (difficulty c)) @ nl @ nl @
                            description c @ nl @ nl @
                            ''**Learn**:'' @ nl @
                            joinWith nl (map (\<lambda>obj. ''- '' @ obj) (learningObjectives c)) @ nl @ nl @
                            ''[View Example '' @ [CHR 0xE2, CHR 0x86, CHR 0x92] @
                            ''](./example-'' @ m @ ''/)'' @ nl @ nl @
                            ''---'' @ nl) (zip (examples config) configs)) @ nl @ nl @
                         ''## Getting Started'' @ rest))
                  (last ss)"
      using len mk steps l2 s' [unfolded shape, unfolded linkEntry_def]
      by (intro exI [of _ ss] exI [of _ configs] exI [of _ rest] conjI)
    from r(1) E r(3) r(4) show ?thesis by (intro conjI)
  qed
  show ?thesis
  proof (rule conjI)
    show "categoryReady e fuel config outputDir s \<longrightarrow>
            (\<exists>s'. createCategory e fuel categoryName outputDir s
                    = Ok (categoryDirOf e outputDir config) s')"
      by (rule A)
  next
    show "\<forall>p s'. createCategory e fuel categoryName outputDir s = Ok p s' \<longrightarrow>
            p = categoryDirOf e outputDir config
          \<and> (\<exists>ss configs rest.
                length ss = Suc (length (examples config))
              \<and> (if \<not> existsSync e p s then mkdirSync e p s else Ok () s) = Ok () (hd ss)
              \<and> (\<forall>i<length (examples config).
                    createExample e fuel (examples config ! i) (Some p) (ss ! i)
                      = Ok (path_join [p, ''example-'' @ examples config ! i]) (ss ! Suc i))
              \<and> list_all2 (\<lambda>m c. getProp EXAMPLES m = Own c) (examples config) configs
              \<and> s' = AList.update (fsKey (cwd e) p @ [''README.md''])
                  (File (''# '' @ ctitle config @ nl @ nl @
                         ''**'' @ cdescription config @ ''**'' @ nl @ nl @
                         ''## Overview'' @ nl @ nl @
                         overview config @ nl @ nl @
                         ''## Examples in This Category'' @ nl @ nl @
                         joinWith nl (map (\<lambda>(m, c).
                            ''### ['' @ title c @ ''](./example-'' @ m @ ''/)'' @ nl @ nl @
                            ''**Difficulty**: '' @ capitalize (difficulty_str (difficulty c)) @ nl @ nl @
                            description c @ nl @ nl @
                            ''**Learn**:'' @ nl @
                            joinWith nl (map (\<lambda>obj. ''- '' @ obj) (learningObjectives c)) @ nl @ nl @
                            ''[View Example '' @ [CHR 0xE2, CHR 0x86, CHR 0x92] @
                            ''](./example-'' @ m @ ''/)'' @ nl @ nl @
                            ''---'' @ nl) (zip (examples config) configs)) @ nl @ nl @
                         ''## Getting Started'' @ rest))
                  (last ss))
          \<and> (\<forall>m\<in>set (examples config).
                nodeAt s' (fsKey (cwd e) p @ [''example-'' @ m]) = Some Dir)
          \<and> (\<forall>n. n \<noteq> ''README.md'' \<and> n \<notin> (\<lambda>m. ''example-'' @ m) ` set (examples config)
                \<longrightarrow> nodeAt s' (fsKey (cwd e) p @ [n]) = nodeAt s (fsKey (cwd e) p @ [n]))"
    proof (rule allI, rule allI, rule impI)
      fix p s' assume "createCategory e fuel categoryName outputDir s = Ok p s'"
      then show "p = categoryDirOf e outputDir config
          \<and> (\<exists>ss configs rest.
                length ss = Suc (length (examples config))
              \<and> (if \<not> existsSync e p s then mkdirSync e p s else Ok () s) = Ok () (hd ss)
              \<and> (\<forall>i<length (examples config).
                    createExample e fuel (examples config ! i) (Some p) (ss ! i)
                      = Ok (path_join [p, ''example-'' @ examples config ! i]) (ss ! Suc i))
              \<and> list_all2 (\<lambda>m c. getProp EXAMPLES m = Own c) (examples config) configs
              \<and> s' = AList.update (fsKey (cwd e) p @ [''README.md''])
                  (File (''# '' @ ctitle config @ nl @ nl @
                         ''**'' @ cdescription config @ ''**'' @ nl @ nl @
                         ''## Overview'' @ nl @ nl @
                         overview config @ nl @ nl @
                         ''## Examples in This Category'' @ nl @ nl @
                         joinWith nl (map (\<lambda>(m, c).
                            ''### ['' @ title c @ ''](./example-'' @ m @ ''/)'' @ nl @ nl @
                            ''**Difficulty**: '' @ capitalize (difficulty_str (difficulty c)) @ nl @ nl @
                            description c @ nl @ nl @
                            ''**Learn**:'' @ nl @
                            joinWith nl (map (\<lambda>obj. ''- '' @ obj) (learningObjectives c)) @ nl @ nl @
                            ''[View Example '' @ [CHR 0xE2, CHR 0x86, CHR 0x92] @
                            ''](./example-'' @ m @ ''/)'' @ nl @ nl @
                            ''---'' @ nl) (zip (examples config) configs)) @ nl @ nl @
                         ''## Getting Started'' @ rest))
                  (last ss))
          \<and> (\<forall>m\<in>set (examples config).
                nodeAt s' (fsKey (cwd e) p @ [''example-'' @ m]) = Some Dir)
          \<and> (\<forall>n. n \<noteq> ''README.md'' \<and> n \<notin> (\<lambda>m. ''example-'' @ m) ` set (examples config)
                \<longrightarrow> nodeAt s' (fsKey (cwd e) p @ [n]) = nodeAt s (fsKey (cwd e) p @ [n]))"
        by (rule B)
    qed
  qed
qed

theorem createCategory_creates_member_directories_witness:
  "getProp CATEGORIES ''advanced'' = Own cat_advanced
   \<and> wfFs demoFs
   \<and> categoryReady demoEnv (Suc 0) cat_advanced (Some ''cats'') demoFs
   \<and> createCategory demoEnv (Suc 0) ''advanced'' (Some ''cats'') demoFs
       = Ok ''cats/category-advanced'' demoAdvFs
   \<and> createExample demoEnv (Suc 0) ''credit-scoring'' (Some ''cats/category-advanced'') demoAdvMade
       = Ok ''cats/category-advanced/example-credit-scoring'' demoAdvDone_credit_scoring
   \<and> createExample demoEnv (Suc 0) ''input-proofs'' (Some ''cats/category-advanced'')
         demoAdvDone_credit_scoring
       = Ok ''cats/category-advanced/example-input-proofs'' demoAdvDone_input_proofs
   \<and> nodeAt demoAdvFs [''w'', ''cats'', ''category-advanced'', ''example-credit-scoring''] = Some Dir
   \<and> nodeAt demoAdvFs [''w'', ''cats'', ''category-advanced'', ''example-input-proofs''] = Some Dir
   \<and> nodeAt demoAdvFs [''w'', ''cats'', ''category-advanced'', ''notes.txt''] = None
   \<and> (\<exists>before between after.
         nodeAt demoAdvFs [''w'', ''cats'', ''category-advanced'', ''README.md'']
           = Some (File (before
               @ ''### [Privacy-Preserving Credit Scoring](./example-credit-scoring/)'' @ between
               @ ''### [Input Proof Validation](./example-input-proofs/)'' @ after)))"
proof -
  let ?K = "[''w'', ''cats'', ''category-advanced'']"
  note th = createCategory_creates_member_directories
    [OF getProp_advanced wfFs_demoFs, of demoEnv "Suc 0" "Some ''cats''"]
  from th demo_categoryReady
  have "\<exists>s'. createCategory demoEnv (Suc 0) ''advanced'' (Some ''cats'') demoFs
               = Ok (categoryDirOf demoEnv (Some ''cats'') cat_advanced) s'"
    by blast
  from th [THEN conjunct2, rule_format, OF demo_adv_run, unfolded advanced_fields demo_adv_key]
  obtain ss configs rest where
    len: "length ss = Suc (length [''credit-scoring'', ''input-proofs''])"
    and mk: "(if \<not> existsSync demoEnv ''cats/category-advanced'' demoFs
              then mkdirSync demoEnv ''cats/category-advanced'' demoFs else Ok () demoFs)
               = Ok () (hd ss)"
    and steps: "\<forall>i<length [''credit-scoring'', ''input-proofs''].
        createExample demoEnv (Suc 0) ([''credit-scoring'', ''input-proofs''] ! i)
          (Some ''cats/category-advanced'') (ss ! i)
        = Ok (path_join [''cats/category-advanced'',
                         ''example-'' @ [''credit-scoring'', ''input-proofs''] ! i]) (ss ! Suc i)"
    and l2: "list_all2 (\<lambda>m c. getProp EXAMPLES m = Own c)
               [''credit-scoring'', ''input-proofs''] configs"
    and s': "demoAdvFs = AList.update (?K @ [''README.md''])
        (File (''# '' @ ctitle cat_advanced @ nl @ nl @
               ''**'' @ cdescription cat_advanced @ ''**'' @ nl @ nl @
               ''## Overview'' @ nl @ nl @
               overview cat_advanced @ nl @ nl @
               ''## Examples in This Category'' @ nl @ nl @
               joinWith nl (map (\<lambda>(m, c).
                  ''### ['' @ title c @ ''](./example-'' @ m @ ''/)'' @ nl @ nl @
                  ''**Difficulty**: '' @ capitalize (difficulty_str (difficulty c)) @ nl @ nl @
                  description c @ nl @ nl @
                  ''**Learn**:'' @ nl @
                  joinWith nl (map (\<lambda>obj. ''- '' @ obj) (learningObjectives c)) @ nl @ nl @
                  ''[View Example '' @ [CHR 0xE2, CHR 0x86, CHR 0x92] @
                  ''](./example-'' @ m @ ''/)'' @ nl @ nl @
                  ''---'' @ nl) (zip [''credit-scoring'', ''input-proofs''] configs)) @ nl @ nl @
               ''## Getting Started'' @ rest))
        (last ss)"
    and dirs: "\<forall>m\<in>set [''credit-scoring'', ''input-proofs''].
        nodeAt demoAdvFs (?K @ [''example-'' @ m]) = Some Dir"
    and frame: "\<forall>n. n \<noteq> ''README.md''
          \<and> n \<notin> (\<lambda>m. ''example-'' @ m) ` set [''credit-scoring'', ''input-proofs'']
        \<longrightarrow> nodeAt demoAdvFs (?K @ [n]) = nodeAt demoFs (?K @ [n])"
    by blast
  from mk have h: "hd ss = demoAdvMade" unfolding demo_adv_mkdir by simp
  from len obtain a b c where ss: "ss = [a, b, c]"
    by (cases ss; cases "tl ss"; cases "tl (tl ss)") auto
  from h ss have a: "a = demoAdvMade" by simp
  from steps [rule_format, of 0]
  have r1: "createExample demoEnv (Suc 0) ''credit-scoring'' (Some ''cats/category-advanced'')
              demoAdvMade
            = Ok (path_join [''cats/category-advanced'', ''example-'' @ ''credit-scoring'']) b"
    unfolding ss a by simp
  then have b: "b = demoAdvDone_credit_scoring"
    unfolding demo_adv_example_credit_scoring by simp
  from steps [rule_format, of 1]
  have r2: "createExample demoEnv (Suc 0) ''input-proofs'' (Some ''cats/category-advanced'')
              demoAdvDone_credit_scoring
            = Ok (path_join [''cats/category-advanced'', ''example-'' @ ''input-proofs'']) c"
    unfolding ss b by simp
  then have c: "c = demoAdvDone_input_proofs"
    unfolding demo_adv_example_input_proofs by simp
  have run1: "createExample demoEnv (Suc 0) ''credit-scoring'' (Some ''cats/category-advanced'')
      demoAdvMade = Ok ''cats/category-advanced/example-credit-scoring'' demoAdvDone_credit_scoring"
    using r1 unfolding b demo_adv_example_credit_scoring by simp
  have run2: "createExample demoEnv (Suc 0) ''input-proofs'' (Some ''cats/category-advanced'')
      demoAdvDone_credit_scoring
        = Ok ''cats/category-advanced/example-input-proofs'' demoAdvDone_input_proofs"
    using r2 unfolding c demo_adv_example_input_proofs by simp
  from dirs have d1: "nodeAt demoAdvFs
      [''w'', ''cats'', ''category-advanced'', ''example-credit-scoring''] = Some Dir"
    and d2: "nodeAt demoAdvFs
      [''w'', ''cats'', ''category-advanced'', ''example-input-proofs''] = Some Dir"
    by simp_all
  from frame [rule_format, of "''notes.txt''"]
  have f: "nodeAt demoAdvFs [''w'', ''cats'', ''category-advanced'', ''notes.txt''] = None"
    by (simp add: nodeAt_def demoFs_def)
  from l2 obtain c1 c2 where configs: "configs = [c1, c2]"
    and c1: "getProp EXAMPLES ''credit-scoring'' = Own c1"
    and c2: "getProp EXAMPLES ''input-proofs'' = Own c2"
    by (auto simp: list_all2_Cons1)
  from c1 c2 have cs: "c1 = ex_credit_scoring" "c2 = ex_input_proofs"
    unfolding getProp_credit_scoring getProp_input_proofs by simp_all
  have t1: "title ex_credit_scoring = ''Privacy-Preserving Credit Scoring''"
    and t2: "title ex_input_proofs = ''Input Proof Validation''"
    by (simp_all add: ex_credit_scoring_def ex_input_proofs_def)
  have "nodeAt demoAdvFs [''w'', ''cats'', ''category-advanced'', ''README.md''] =
      Some (File ((''# '' @ ctitle cat_advanced @ nl @ nl @
               ''**'' @ cdescription cat_advanced @ ''**'' @ nl @ nl @
               ''## Overview'' @ nl @ nl @
               overview cat_advanced @ nl @ nl @
               ''## Examples in This Category'' @ nl @ nl)
          @ ''### [Privacy-Preserving Credit Scoring](./example-credit-scoring/)''
          @ (nl @ nl @
                  ''**Difficulty**: '' @ capitalize (difficulty_str (difficulty ex_credit_scoring)) @ nl @ nl @
                  description ex_credit_scoring @ nl @ nl @
                  ''**Learn**:'' @ nl @
                  joinWith nl (map (\<lambda>obj. ''- '' @ obj) (learningObjectives ex_credit_scoring)) @ nl @ nl @
                  ''[View Example '' @ [CHR 0xE2, CHR 0x86, CHR 0x92] @
                  ''](./example-'' @ ''credit-scoring'' @ ''/)'' @ nl @ nl @
                  ''---'' @ nl @ nl)
          @ ''### [Input Proof Validation](./example-input-proofs/)''
          @ (nl @ nl @
                  ''**Difficulty**: '' @ capitalize (difficulty_str (difficulty ex_input_proofs)) @ nl @ nl @
                  description ex_input_proofs @ nl @ nl @
                  ''**Learn**:'' @ nl @
                  joinWith nl (map (\<lambda>obj. ''- '' @ obj) (learningObjectives ex_input_proofs)) @ nl @ nl @
                  ''[View Example '' @ [CHR 0xE2, CHR 0x86, CHR 0x92] @
                  ''](./example-'' @ ''input-proofs'' @ ''/)'' @ nl @ nl @
                  ''---'' @ nl @ nl @ nl @
               ''## Getting Started'' @ rest)))"
    by (subst s') (simp add: nodeAt_update configs cs t1 t2)
  then have readme: "\<exists>before between after.
         nodeAt demoAdvFs [''w'', ''cats'', ''category-advanced'', ''README.md'']
           = Some (File (before
               @ ''### [Privacy-Preserving Credit Scoring](./example-credit-scoring/)'' @ between
               @ ''### [Input Proof Validation](./example-input-proofs/)'' @ after))"
    by (intro exI)
  show ?thesis
    by (intro conjI getProp_advanced wfFs_demoFs demo_categoryReady demo_adv_run run1 run2
        d1 d2 f readme)
qed

end
